theory Spec2Isabelle
  imports Complex_Main
begin

section \<open>Data model (src/types.ts)\<close>

text \<open>
  JavaScript numbers are modelled as \<open>int\<close>: \<open>Date.now()\<close> returns integral milliseconds,
  and windows, limits and counts are integers in every configuration the plugin documents.
  Strings are \<open>string\<close>. A thrown exception or rejected promise is a value of \<open>error\<close>.
\<close>

datatype error = Thrown string

record RateLimitRule =
  window :: int
  max' :: int

text \<open>A value of \<open>customRules\<close>: \<open>RateLimitRule | false\<close>.\<close>

datatype rule_setting = Rule RateLimitRule | Disabled

datatype storage_kind = Memory | Database | SecondaryStorage

datatype detection_mode = Ip | User | IpAndUser

text \<open>
  \<open>customRules\<close> is a JavaScript object; it is modelled by the list of its entries in the
  order in which \<open>Object.keys\<close> enumerates them.
\<close>

record RateLimiterOptions =
  opt_window :: "int option"
  opt_max :: "int option"
  opt_storage :: "storage_kind option"
  opt_detection :: "detection_mode option"
  opt_customRules :: "(string \<times> rule_setting) list option"

record RateLimitEntry =
  key :: string
  count :: int
  lastRequest :: int

record CheckRateLimitResponse =
  success :: bool
  limit :: int
  remaining :: int
  retryAfter :: "int option"
  resetAt :: "int option"
  message :: "string option"

text \<open>\<open>RATE_LIMITER_ERROR_CODES.RATE_LIMITED.message\<close> (src/error-codes.ts).\<close>

definition RATE_LIMITED_message :: string where
  "RATE_LIMITED_message = ''Too many requests. Please try again later.''"

section \<open>Pattern matcher (src/index.ts, matchPath)\<close>

subsection \<open>String builtins\<close>

text \<open>
  \<open>String.prototype.split\<close> with a string separator: the occurrences of the separator are
  found from left to right and do not overlap; \<open>cur\<close> is the piece being collected. An empty
  separator splits into single characters.
\<close>

function js_split_from :: "string \<Rightarrow> string \<Rightarrow> string \<Rightarrow> string list" where
  "js_split_from sep cur s =
     (if s = [] then [cur]
      else if sep \<noteq> [] \<and> take (length sep) s = sep
        then cur # js_split_from sep [] (drop (length sep) s)
      else js_split_from sep (cur @ [hd s]) (tl s))"
  by pat_completeness auto
termination
  by (relation "measure (\<lambda>(sep, cur, s). length s)") auto

declare js_split_from.simps [simp del]

definition js_split :: "string \<Rightarrow> string \<Rightarrow> string list" where
  "js_split sep s = (if sep = [] then map (\<lambda>c. [c]) s else js_split_from sep [] s)"

text \<open>\<open>Array.prototype.join\<close>.\<close>

fun js_join :: "string \<Rightarrow> string list \<Rightarrow> string" where
  "js_join sep [] = []"
| "js_join sep [x] = x"
| "js_join sep (x # y # ys) = x @ sep @ js_join sep (y # ys)"

text \<open>
  The characters of the class \<open>[.*+?^${}()|[\]\\]\<close>, and
  \<open>s.replace(/[.*+?^${}()|[\]\\]/g, "\\$&")\<close>, which puts a backslash before each of them.
\<close>

definition backslash :: char where
  "backslash = CHR 0x5C"

definition syntax_chars :: "char list" where
  "syntax_chars = ''.*+?^${}()|[]'' @ [backslash]"

definition escape_syntax :: "string \<Rightarrow> string" where
  "escape_syntax s = concat (map (\<lambda>c. if c \<in> set syntax_chars then [backslash, c] else [c]) s)"

subsection \<open>The regular expressions the matcher builds\<close>

text \<open>
  \<open>new RegExp(src)\<close> and \<open>regex.test(path)\<close> are builtins. They are modelled for the
  fragment the matcher generates: an anchored sequence of literal characters (a character
  that is not a syntax character, or a syntax character after a backslash), \<open>[^/]*\<close> and
  \<open>.*\<close>. Anything else parses to \<open>Unsupported\<close>, which matches nothing; \<open>regexStr_supported\<close>
  below shows that the matcher never builds it.

  Without the \<open>s\<close> flag, \<open>.\<close> matches every character except the line terminators. Of
  these, line feed and carriage return are characters of the model (U+2028 and U+2029 are
  outside the 8-bit \<open>char\<close>).
\<close>

datatype re_atom = Lit char | NotSlashStar | DotStar | Unsupported

definition lineTerminator :: "char \<Rightarrow> bool" where
  "lineTerminator c = (c = CHR 0x0A \<or> c = CHR 0x0D)"

fun re_body :: "string \<Rightarrow> re_atom list" where
  "re_body [] = [Unsupported]"
| "re_body (c # s) =
     (if c = CHR ''$'' then (if s = [] then [] else [Unsupported])
      else if c = backslash then
        (case s of
           [] \<Rightarrow> [Unsupported]
         | d # r \<Rightarrow> if d \<in> set syntax_chars then Lit d # re_body r else [Unsupported])
      else if c = CHR ''.'' then
        (case s of
           [] \<Rightarrow> [Unsupported]
         | d # r \<Rightarrow> if d = CHR ''*'' then DotStar # re_body r else [Unsupported])
      else if c = CHR ''['' then
        (if take 4 s = ''^/]*'' then NotSlashStar # re_body (drop 4 s) else [Unsupported])
      else if c \<in> set syntax_chars then [Unsupported]
      else Lit c # re_body s)"

definition RegExp :: "string \<Rightarrow> re_atom list" where
  "RegExp src = (case src of [] \<Rightarrow> [Unsupported]
                 | c # s \<Rightarrow> if c = CHR ''^'' then re_body s else [Unsupported])"

fun re_test :: "re_atom list \<Rightarrow> string \<Rightarrow> bool" where
  "re_test [] s = (s = [])"
| "re_test (Lit c # as) [] = False"
| "re_test (Lit c # as) (d # s) = (d = c \<and> re_test as s)"
| "re_test (NotSlashStar # as) [] = re_test as []"
| "re_test (NotSlashStar # as) (d # s) =
     (re_test as (d # s) \<or> (d \<noteq> CHR ''/'' \<and> re_test (NotSlashStar # as) s))"
| "re_test (DotStar # as) [] = re_test as []"
| "re_test (DotStar # as) (d # s) =
     (re_test as (d # s) \<or> (\<not> lineTerminator d \<and> re_test (DotStar # as) s))"
| "re_test (Unsupported # as) s = False"

subsection \<open>matchPath\<close>

definition regexStr :: "string \<Rightarrow> string" where
  "regexStr pattern =
     js_join ''.*''
       (map (\<lambda>segment. js_join ''[^/]*'' (map escape_syntax (js_split ''*'' segment)))
          (js_split ''**'' pattern))"

type_synonym pattern_cache = "string \<rightharpoonup> re_atom list"

definition matchPath :: "string \<Rightarrow> string \<Rightarrow> pattern_cache \<Rightarrow> bool \<times> pattern_cache" where
  "matchPath pattern path cache =
     (if CHR ''*'' \<notin> set pattern then (pattern = path, cache)
      else
        (case cache pattern of
           Some regex \<Rightarrow> (re_test regex path, cache)
         | None \<Rightarrow>
             (let regex = RegExp (''^'' @ regexStr pattern @ ''$'')
              in (re_test regex path, cache(pattern \<mapsto> regex)))))"

section \<open>Rule resolver (src/index.ts, findMatchingRule)\<close>

text \<open>
  \<open>Object.keys(customRules).find(...)\<close>: the patterns are tried in order, each through
  \<open>matchPath\<close> (which may fill the cache), until one matches.
\<close>

fun find_pattern :: "string \<Rightarrow> string list \<Rightarrow> pattern_cache \<Rightarrow> string option \<times> pattern_cache" where
  "find_pattern path [] cache = (None, cache)"
| "find_pattern path (pattern # patterns) cache =
     (case matchPath pattern path cache of
        (True, cache') \<Rightarrow> (Some pattern, cache')
      | (False, cache') \<Rightarrow> find_pattern path patterns cache')"

definition findMatchingRule ::
  "string \<Rightarrow> (string \<times> rule_setting) list option \<Rightarrow> pattern_cache
     \<Rightarrow> rule_setting option \<times> pattern_cache" where
  "findMatchingRule path customRules cache =
     (case customRules of
        None \<Rightarrow> (None, cache)
      | Some rules \<Rightarrow>
          (case find_pattern path (map fst rules) cache of
             (Some matchedKey, cache') \<Rightarrow> (map_of rules matchedKey, cache')
           | (None, cache') \<Rightarrow> (None, cache')))"

section \<open>Identity resolver (src/index.ts, resolveIdentifier)\<close>

text \<open>
  What the request context supplies: the outcome of \<open>getSessionFromCtx(ctx)\<close> (a rejected
  promise, no session, or a session with its \<open>user.id\<close>), the outcome of \<open>getIp(...)\<close>, and
  the \<open>path\<close> of the body.
\<close>

record request_context =
  session :: "error + string option"
  ip :: "string option"
  body_path :: string

definition ip_identifier :: "request_context \<Rightarrow> string \<Rightarrow> string option" where
  "ip_identifier ctx path =
     (case ip ctx of
        None \<Rightarrow> None
      | Some a \<Rightarrow> if a = [] then None else Some (a @ ''|'' @ path))"

definition resolveIdentifier :: "request_context \<Rightarrow> detection_mode \<Rightarrow> string \<Rightarrow> string option" where
  "resolveIdentifier ctx detection path =
     (if detection = User \<or> detection = IpAndUser then
        (case (case session ctx of Inl e \<Rightarrow> None | Inr found \<Rightarrow> found) of
           Some uid \<Rightarrow> Some (''user:'' @ uid @ ''|'' @ path)
         | None \<Rightarrow> if detection = User then None else ip_identifier ctx path)
      else ip_identifier ctx path)"

section \<open>Window store (src/storage.ts)\<close>

text \<open>
  A backend is a pair of operations on its own state \<open>'s\<close>. Each takes the reading of
  \<open>Date.now()\<close> it may make, and returns the state it leaves behind together with its
  result or the exception it throws.
\<close>

record 's RateLimitStorage =
  storage_get :: "string \<Rightarrow> int \<Rightarrow> 's \<Rightarrow> (error + RateLimitEntry option) \<times> 's"
  storage_set :: "string \<Rightarrow> RateLimitEntry \<Rightarrow> bool \<Rightarrow> int \<Rightarrow> 's \<Rightarrow> (error + unit) \<times> 's"

subsection \<open>createMemoryStorage\<close>

record MemoryEntry =
  data :: RateLimitEntry
  expiresAt :: int

type_synonym memory = "string \<rightharpoonup> MemoryEntry"

definition memory_get :: "string \<Rightarrow> int \<Rightarrow> memory \<Rightarrow> (error + RateLimitEntry option) \<times> memory" where
  "memory_get k now memory =
     (case memory k of
        None \<Rightarrow> (Inr None, memory)
      | Some entry \<Rightarrow>
          if now \<ge> expiresAt entry then (Inr None, memory(k := None))
          else (Inr (Some (data entry)), memory))"

definition memory_set ::
  "int \<Rightarrow> string \<Rightarrow> RateLimitEntry \<Rightarrow> bool \<Rightarrow> int \<Rightarrow> memory \<Rightarrow> (error + unit) \<times> memory" where
  "memory_set defaultWindow k v update now memory =
     (let expiresAt = now + defaultWindow * 1000
      in (Inr (), memory(k \<mapsto> \<lparr>data = v, expiresAt = expiresAt\<rparr>)))"

definition createMemoryStorage :: "int \<Rightarrow> memory RateLimitStorage" where
  "createMemoryStorage defaultWindow =
     \<lparr>storage_get = memory_get, storage_set = memory_set defaultWindow\<rparr>"

subsection \<open>createDatabaseStorage\<close>

text \<open>
  The database adapter \<open>ctx.adapter\<close> belongs to the host framework, so the backend is
  modelled for every adapter: three operations on the model \<open>rateLimit\<close>, each of which may
  throw. A row's \<open>lastRequest\<close> comes back as a number or as a bigint.
\<close>

datatype stored_number = Number int | BigInt int

record db_row =
  row_key :: string
  row_count :: int
  row_lastRequest :: stored_number

record 'db adapter =
  findMany :: "string \<Rightarrow> 'db \<Rightarrow> (error + db_row list) \<times> 'db"
  updateMany :: "string \<Rightarrow> int \<Rightarrow> int \<Rightarrow> 'db \<Rightarrow> (error + unit) \<times> 'db"
  create :: "RateLimitEntry \<Rightarrow> 'db \<Rightarrow> (error + unit) \<times> 'db"

text \<open>The state of the backend: the database, and what \<open>ctx.logger.error\<close> has written.\<close>

type_synonym 'db database = "'db \<times> (string \<times> error) list"

definition database_get ::
  "'db adapter \<Rightarrow> string \<Rightarrow> int \<Rightarrow> 'db database \<Rightarrow> (error + RateLimitEntry option) \<times> 'db database" where
  "database_get db k now st =
     (case findMany db k (fst st) of
        (Inl e, d') \<Rightarrow> (Inl e, (d', snd st))
      | (Inr res, d') \<Rightarrow>
          (case res of
             [] \<Rightarrow> (Inr None, (d', snd st))
           | row # rest \<Rightarrow>
               (Inr (Some \<lparr>key = row_key row, count = row_count row,
                           lastRequest = (case row_lastRequest row of
                                            BigInt n \<Rightarrow> n
                                          | Number n \<Rightarrow> n)\<rparr>),
                (d', snd st))))"

definition database_set ::
  "'db adapter \<Rightarrow> string \<Rightarrow> RateLimitEntry \<Rightarrow> bool \<Rightarrow> int \<Rightarrow> 'db database
     \<Rightarrow> (error + unit) \<times> 'db database" where
  "database_set db k v update now st =
     (case (if update then updateMany db k (count v) (lastRequest v) (fst st)
            else create db \<lparr>key = k, count = count v, lastRequest = lastRequest v\<rparr> (fst st)) of
        (Inl e, d') \<Rightarrow> (Inr (), (d', snd st @ [(''Error setting rate limit'', e)]))
      | (Inr u, d') \<Rightarrow> (Inr (), (d', snd st)))"

definition createDatabaseStorage :: "'db adapter \<Rightarrow> 'db database RateLimitStorage" where
  "createDatabaseStorage db = \<lparr>storage_get = database_get db, storage_set = database_set db\<rparr>"

text \<open>
  A reference adapter for the schema \<open>rateLimitSchema\<close> of src/index.ts: a table whose \<open>key\<close>
  column is unique, so that \<open>create\<close> throws on a key the table already holds.
\<close>

definition table_adapter :: "db_row list adapter" where
  "table_adapter =
     \<lparr>findMany = (\<lambda>k rows. (Inr (filter (\<lambda>r. row_key r = k) rows), rows)),
      updateMany = (\<lambda>k c l rows.
        (Inr (), map (\<lambda>r. if row_key r = k
                            then r\<lparr>row_count := c, row_lastRequest := Number l\<rparr> else r) rows)),
      create = (\<lambda>e rows.
        if key e \<in> row_key ` set rows then (Inl (Thrown ''unique constraint''), rows)
        else (Inr (), rows @ [\<lparr>row_key = key e, row_count = count e,
                                row_lastRequest = Number (lastRequest e)\<rparr>]))\<rparr>"

text \<open>An adapter whose database is unreachable: every operation throws.\<close>

definition unreachable_adapter :: "unit adapter" where
  "unreachable_adapter =
     \<lparr>findMany = (\<lambda>k d. (Inl (Thrown ''connection refused''), d)),
      updateMany = (\<lambda>k c l d. (Inl (Thrown ''connection refused''), d)),
      create = (\<lambda>e d. (Inl (Thrown ''connection refused''), d))\<rparr>"

subsection \<open>createSecondaryStorageWrapper\<close>

text \<open>
  \<open>ctx.options.secondaryStorage\<close> may be absent; when present it is a string store with a
  time to live in seconds, owned by the host. \<open>get\<close> yields \<open>None\<close> for anything that is not
  a string. \<open>JSON.stringify\<close> and \<open>JSON.parse\<close> on entries are builtins, taken as a
  parameter; \<open>json_parse\<close> is \<open>None\<close> where \<open>JSON.parse\<close> throws.
\<close>

record 'c secondaryStorage =
  ss_get :: "string \<Rightarrow> int \<Rightarrow> 'c \<Rightarrow> (error + string option) \<times> 'c"
  ss_set :: "string \<Rightarrow> string \<Rightarrow> int \<Rightarrow> int \<Rightarrow> 'c \<Rightarrow> (error + unit) \<times> 'c"

record json_codec =
  json_stringify :: "RateLimitEntry \<Rightarrow> string"
  json_parse :: "string \<Rightarrow> RateLimitEntry option"

definition secondary_get ::
  "json_codec \<Rightarrow> 'c secondaryStorage option \<Rightarrow> string \<Rightarrow> int \<Rightarrow> 'c
     \<Rightarrow> (error + RateLimitEntry option) \<times> 'c" where
  "secondary_get json ss k now c =
     (case ss of
        None \<Rightarrow> (Inr None, c)
      | Some store \<Rightarrow>
          (case ss_get store k now c of
             (Inl e, c') \<Rightarrow> (Inl e, c')
           | (Inr found, c') \<Rightarrow>
               (case found of
                  None \<Rightarrow> (Inr None, c')
                | Some str \<Rightarrow> if str = [] then (Inr None, c') else (Inr (json_parse json str), c'))))"

definition secondary_set ::
  "json_codec \<Rightarrow> 'c secondaryStorage option \<Rightarrow> int \<Rightarrow> string \<Rightarrow> RateLimitEntry \<Rightarrow> bool \<Rightarrow> int \<Rightarrow> 'c
     \<Rightarrow> (error + unit) \<times> 'c" where
  "secondary_set json ss defaultWindow k v update now c =
     (case ss of
        None \<Rightarrow> (Inr (), c)
      | Some store \<Rightarrow> ss_set store k (json_stringify json v) defaultWindow now c)"

definition createSecondaryStorageWrapper ::
  "json_codec \<Rightarrow> 'c secondaryStorage option \<Rightarrow> int \<Rightarrow> 'c RateLimitStorage" where
  "createSecondaryStorageWrapper json ss defaultWindow =
     \<lparr>storage_get = secondary_get json ss,
      storage_set = secondary_set json ss defaultWindow\<rparr>"

text \<open>
  The secondary storage of the test suite (src/test/rate-limiter.test.ts, the case
  "should rate limit using secondary storage"): a map from keys to a value and the time at
  which it expires.
\<close>

type_synonym ttl_store = "string \<rightharpoonup> string \<times> int"

definition test_secondaryStorage :: "ttl_store secondaryStorage" where
  "test_secondaryStorage =
     \<lparr>ss_get = (\<lambda>k now store.
        case store k of
          None \<Rightarrow> (Inr None, store)
        | Some entry \<Rightarrow>
            if now \<ge> snd entry then (Inr None, store(k := None))
            else (Inr (Some (fst entry)), store)),
      ss_set = (\<lambda>k v ttl now store. (Inr (), store(k \<mapsto> (v, now + ttl * 1000))))\<rparr>"

section \<open>Decision engine (src/index.ts)\<close>

definition shouldRateLimit :: "int \<Rightarrow> int \<Rightarrow> RateLimitEntry \<Rightarrow> int \<Rightarrow> bool" where
  "shouldRateLimit mx win d now =
     (let windowMs = win * 1000;
          timeSinceLastRequest = now - lastRequest d
      in timeSinceLastRequest < windowMs \<and> count d \<ge> mx)"

text \<open>\<open>Math.ceil((lastRequest + windowMs - now) / 1000)\<close>, with the division of reals.\<close>

definition getRetryAfter :: "int \<Rightarrow> int \<Rightarrow> int \<Rightarrow> int" where
  "getRetryAfter lastReq win now =
     (let windowMs = win * 1000
      in \<lceil>real_of_int (lastReq + windowMs - now) / 1000\<rceil>)"

text \<open>The state the closure of \<open>rateLimiter(options)\<close> captures.\<close>

record plugin =
  defaultWindow :: int
  defaultMax :: int
  storageType :: storage_kind
  customRules :: "(string \<times> rule_setting) list option"
  detection :: detection_mode

definition rateLimiter :: "RateLimiterOptions option \<Rightarrow> plugin" where
  "rateLimiter options =
     \<lparr>defaultWindow = (case Option.bind options opt_window of Some w \<Rightarrow> w | None \<Rightarrow> 60),
      defaultMax = (case Option.bind options opt_max of Some m \<Rightarrow> m | None \<Rightarrow> 100),
      storageType = (case Option.bind options opt_storage of Some k \<Rightarrow> k | None \<Rightarrow> Memory),
      customRules = Option.bind options opt_customRules,
      detection = (case Option.bind options opt_detection of Some d \<Rightarrow> d | None \<Rightarrow> Ip)\<rparr>"

text \<open>
  One request reads the clock up to five times: inside \<open>storage.get\<close>, for \<open>now\<close>, inside
  \<open>shouldRateLimit\<close>, inside \<open>getRetryAfter\<close> and inside \<open>storage.set\<close>.
\<close>

record clock =
  atGet :: int
  atNow :: int
  atShouldRateLimit :: int
  atGetRetryAfter :: int
  atSet :: int

definition instant :: "int \<Rightarrow> clock" where
  "instant t = \<lparr>atGet = t, atNow = t, atShouldRateLimit = t, atGetRetryAfter = t, atSet = t\<rparr>"

text \<open>
  The handler from \<open>const storageKey\<close> on (lines 211 to 265), for the limits and the
  identifier the lines before it resolved.
\<close>

definition countRequest ::
  "int \<Rightarrow> int \<Rightarrow> 's RateLimitStorage \<Rightarrow> string \<Rightarrow> clock \<Rightarrow> 's
     \<Rightarrow> (error + CheckRateLimitResponse) \<times> 's" where
  "countRequest currentMax currentWindow storage identifier clk s =
     (let windowMs = currentWindow * 1000;
          storageKey = ''rl:'' @ identifier
      in case storage_get storage storageKey (atGet clk) s of
           (Inl e, s1) \<Rightarrow> (Inl e, s1)
         | (Inr found, s1) \<Rightarrow>
             (let now = atNow clk
              in case found of
                   None \<Rightarrow>
                     (case storage_set storage storageKey
                             \<lparr>key = storageKey, count = 1, lastRequest = now\<rparr> False (atSet clk) s1 of
                        (Inl e, s2) \<Rightarrow> (Inl e, s2)
                      | (Inr u, s2) \<Rightarrow>
                          (Inr \<lparr>success = True, limit = currentMax, remaining = currentMax - 1,
                                retryAfter = None, resetAt = Some (now + windowMs),
                                message = None\<rparr>, s2))
                 | Some d \<Rightarrow>
                     if shouldRateLimit currentMax currentWindow d (atShouldRateLimit clk) then
                       (let retry = getRetryAfter (lastRequest d) currentWindow (atGetRetryAfter clk)
                        in (Inr \<lparr>success = False, limit = currentMax, remaining = 0,
                                  retryAfter = Some retry,
                                  resetAt = Some (lastRequest d + windowMs),
                                  message = Some RATE_LIMITED_message\<rparr>, s1))
                     else
                       (let timeSinceLastRequest = now - lastRequest d
                        in if timeSinceLastRequest > windowMs then
                             (case storage_set storage storageKey
                                     (d\<lparr>count := 1, lastRequest := now\<rparr>) True (atSet clk) s1 of
                                (Inl e, s2) \<Rightarrow> (Inl e, s2)
                              | (Inr u, s2) \<Rightarrow>
                                  (Inr \<lparr>success = True, limit = currentMax,
                                        remaining = currentMax - 1, retryAfter = None,
                                        resetAt = Some (now + windowMs), message = None\<rparr>, s2))
                           else
                             (let newCount = count d + 1
                              in case storage_set storage storageKey
                                        (d\<lparr>count := newCount\<rparr>) True (atSet clk) s1 of
                                   (Inl e, s2) \<Rightarrow> (Inl e, s2)
                                 | (Inr u, s2) \<Rightarrow>
                                     (Inr \<lparr>success = True, limit = currentMax,
                                           remaining = max 0 (currentMax - newCount),
                                           retryAfter = None,
                                           resetAt = Some (lastRequest d + windowMs),
                                           message = None\<rparr>, s2)))))"

text \<open>\<open>rule?.window ?? defaultWindow\<close> and \<open>rule?.max ?? defaultMax\<close>.\<close>

definition currentWindow :: "plugin \<Rightarrow> rule_setting option \<Rightarrow> int" where
  "currentWindow pl rule = (case rule of Some (Rule r) \<Rightarrow> window r | _ \<Rightarrow> defaultWindow pl)"

definition currentMax :: "plugin \<Rightarrow> rule_setting option \<Rightarrow> int" where
  "currentMax pl rule = (case rule of Some (Rule r) \<Rightarrow> max' r | _ \<Rightarrow> defaultMax pl)"

text \<open>The handler of the endpoint \<open>/rate-limiter/check\<close>, on the pattern cache and the store.\<close>

definition checkRateLimit ::
  "plugin \<Rightarrow> 's RateLimitStorage \<Rightarrow> request_context \<Rightarrow> clock \<Rightarrow> pattern_cache \<times> 's
     \<Rightarrow> (error + CheckRateLimitResponse) \<times> (pattern_cache \<times> 's)" where
  "checkRateLimit pl storage ctx clk st =
     (let path = body_path ctx;
          (rule, cache') = findMatchingRule path (customRules pl) (fst st)
      in if rule = Some Disabled then
           (Inr \<lparr>success = True, limit = 0, remaining = 0, retryAfter = None,
                 resetAt = None, message = None\<rparr>, (cache', snd st))
         else
           (case resolveIdentifier ctx (detection pl) path of
              None \<Rightarrow>
                (Inr \<lparr>success = True, limit = currentMax pl rule, remaining = currentMax pl rule,
                      retryAfter = None, resetAt = None, message = None\<rparr>, (cache', snd st))
            | Some identifier \<Rightarrow>
                if identifier = [] then
                  (Inr \<lparr>success = True, limit = currentMax pl rule, remaining = currentMax pl rule,
                        retryAfter = None, resetAt = None, message = None\<rparr>, (cache', snd st))
                else
                  (case countRequest (currentMax pl rule) (currentWindow pl rule) storage
                          identifier clk (snd st) of
                     (r, s') \<Rightarrow> (r, (cache', s')))))"

section \<open>Request sequences\<close>

text \<open>
  Requests served one after the other by one plugin instance: each request comes with its
  context and its clock readings, and the state left by one is the state the next finds.
\<close>

fun serve ::
  "plugin \<Rightarrow> 's RateLimitStorage \<Rightarrow> (request_context \<times> clock) list \<Rightarrow> pattern_cache \<times> 's
     \<Rightarrow> (error + CheckRateLimitResponse) list" where
  "serve pl storage [] st = []"
| "serve pl storage (rq # rqs) st =
     (case checkRateLimit pl storage (fst rq) (snd rq) st of
        (r, st') \<Rightarrow> r # serve pl storage rqs st')"

text \<open>The state a sequence of requests leaves behind.\<close>

fun served ::
  "plugin \<Rightarrow> 's RateLimitStorage \<Rightarrow> (request_context \<times> clock) list \<Rightarrow> pattern_cache \<times> 's
     \<Rightarrow> pattern_cache \<times> 's" where
  "served pl storage [] st = st"
| "served pl storage (rq # rqs) st =
     served pl storage rqs (snd (checkRateLimit pl storage (fst rq) (snd rq) st))"

text \<open>The requests of one caller on one path, each observed at one instant.\<close>

definition at_instants :: "request_context \<Rightarrow> int list \<Rightarrow> (request_context \<times> clock) list" where
  "at_instants ctx ts = map (\<lambda>t. (ctx, instant t)) ts"

section \<open>The pattern language of the specification\<close>

text \<open>
  The matcher as the specification words it: \<open>**\<close> matches any run of characters, \<open>*\<close> any
  run of characters other than the separator \<open>/\<close>, and every other character matches itself.
\<close>

datatype glob = Literal char | SegmentRun | AnyRun

fun glob_tokens :: "string \<Rightarrow> glob list" where
  "glob_tokens [] = []"
| "glob_tokens [c] = (if c = CHR ''*'' then [SegmentRun] else [Literal c])"
| "glob_tokens (c # d # s) =
     (if c = CHR ''*'' \<and> d = CHR ''*'' then AnyRun # glob_tokens s
      else if c = CHR ''*'' then SegmentRun # glob_tokens (d # s)
      else Literal c # glob_tokens (d # s))"

fun glob_match :: "glob list \<Rightarrow> string \<Rightarrow> bool" where
  "glob_match [] s = (s = [])"
| "glob_match (Literal c # gs) [] = False"
| "glob_match (Literal c # gs) (d # s) = (d = c \<and> glob_match gs s)"
| "glob_match (SegmentRun # gs) [] = glob_match gs []"
| "glob_match (SegmentRun # gs) (d # s) =
     (glob_match gs (d # s) \<or> (d \<noteq> CHR ''/'' \<and> glob_match (SegmentRun # gs) s))"
| "glob_match (AnyRun # gs) [] = glob_match gs []"
| "glob_match (AnyRun # gs) (d # s) = (glob_match gs (d # s) \<or> glob_match (AnyRun # gs) s)"

definition spec_matches :: "string \<Rightarrow> string \<Rightarrow> bool" where
  "spec_matches pattern path = glob_match (glob_tokens pattern) path"

section \<open>Example configurations\<close>

text \<open>
  The configuration of the test "should reset counter after window expires", with two
  requests per window of ten seconds, and the same with detection by user; a caller known by
  its address; and the memory store as one request at 0 ms, and as two requests at 0 and
  5000 ms, leave it.
\<close>

definition ip_plugin :: plugin where
  "ip_plugin =
     rateLimiter (Some \<lparr>opt_window = Some 10, opt_max = Some 2, opt_storage = Some Memory,
                        opt_detection = None, opt_customRules = None\<rparr>)"

definition user_plugin :: plugin where
  "user_plugin =
     rateLimiter (Some \<lparr>opt_window = Some 10, opt_max = Some 2, opt_storage = Some Memory,
                        opt_detection = Some User, opt_customRules = None\<rparr>)"

definition caller :: request_context where
  "caller = \<lparr>session = Inr None, ip = Some ''10.0.0.80'', body_path = ''/api/expiry''\<rparr>"

definition caller_key :: string where
  "caller_key = ''rl:10.0.0.80|/api/expiry''"

definition opened :: memory where
  "opened =
     Map.empty(caller_key \<mapsto>
       \<lparr>data = \<lparr>key = caller_key, count = 1, lastRequest = 0\<rparr>, expiresAt = 10000\<rparr>)"

definition used_up :: memory where
  "used_up =
     Map.empty(caller_key \<mapsto>
       \<lparr>data = \<lparr>key = caller_key, count = 2, lastRequest = 0\<rparr>, expiresAt = 15000\<rparr>)"

text \<open>
  The configuration of the section "Custom Rules" of the README, whose rule for
  \<open>/api/auth/sign-up\<close> has a window of one hour where the default window is one minute, and
  a caller of that path.
\<close>

definition readme_plugin :: plugin where
  "readme_plugin =
     rateLimiter (Some \<lparr>opt_window = Some 60, opt_max = Some 100, opt_storage = None,
                        opt_detection = None,
                        opt_customRules = Some
                          [(''/api/auth/sign-in'', Rule \<lparr>window = 60, max' = 5\<rparr>),
                           (''/api/auth/sign-up'', Rule \<lparr>window = 3600, max' = 3\<rparr>),
                           (''/api/ai/*'', Rule \<lparr>window = 60, max' = 10\<rparr>),
                           (''/api/ai/generate'', Rule \<lparr>window = 3600, max' = 5\<rparr>),
                           (''/api/health'', Disabled)]\<rparr>)"

definition sign_up :: request_context where
  "sign_up = \<lparr>session = Inr None, ip = Some ''10.0.0.80'', body_path = ''/api/auth/sign-up''\<rparr>"

section \<open>Identities as the specification has them\<close>





section \<open>The pattern cache\<close>

text \<open>
  The cache starts empty and only \<open>matchPath\<close> fills it, so every entry is the compiled form
  of its pattern. \<open>resolveRule\<close> is the rule the resolver finds for a path with an empty
  cache.
\<close>

definition cache_sound :: "pattern_cache \<Rightarrow> bool" where
  "cache_sound cache = (\<forall>p r. cache p = Some r \<longrightarrow> r = RegExp (''^'' @ regexStr p @ ''$''))"

definition resolveRule :: "string \<Rightarrow> (string \<times> rule_setting) list option \<Rightarrow> rule_setting option" where
  "resolveRule path rules = fst (findMatchingRule path rules Map.empty)"

section \<open>From patterns to regular expressions\<close>

text \<open>
  The atom and the source text that correspond to each token of a pattern; they relate
  what \<open>matchPath\<close> compiles to the pattern language of the specification.
\<close>

fun atom_of :: "glob \<Rightarrow> re_atom" where
  "atom_of (Literal c) = Lit c"
| "atom_of SegmentRun = NotSlashStar"
| "atom_of AnyRun = DotStar"

fun source_of :: "glob \<Rightarrow> string" where
  "source_of (Literal c) = escape_syntax [c]"
| "source_of SegmentRun = ''[^/]*''"
| "source_of AnyRun = ''.*''"

section \<open>The keys the handler uses\<close>






section \<open>Windows\<close>

text \<open>The requests of one caller on one path, each with its readings of the clock.\<close>

definition by_caller :: "request_context \<Rightarrow> clock list \<Rightarrow> (request_context \<times> clock) list" where
  "by_caller ctx clks = map (Pair ctx) clks"

text \<open>
  What lines 215 to 255 of the handler do with the result of \<open>storage.get\<close>: a request opens
  a window when it has read no entry, or an entry that is not rate limited and whose window
  start lies strictly more than the window behind \<open>now\<close>. A request is counted into a
  window only if it has read an entry.
\<close>

definition opens_window :: "int \<Rightarrow> int \<Rightarrow> clock \<Rightarrow> error + RateLimitEntry option \<Rightarrow> bool" where
  "opens_window mx w clk found =
     (case found of
        Inl e \<Rightarrow> False
      | Inr None \<Rightarrow> True
      | Inr (Some d) \<Rightarrow>
          \<not> shouldRateLimit mx w d (atShouldRateLimit clk) \<and> atNow clk - lastRequest d > w * 1000)"

definition finds_entry :: "error + RateLimitEntry option \<Rightarrow> bool" where
  "finds_entry found = (case found of Inl e \<Rightarrow> False | Inr None \<Rightarrow> False | Inr (Some d) \<Rightarrow> True)"

text \<open>
  What \<open>storage.get\<close> returns to each request of one caller, when the requests are served
  one after the other.
\<close>

fun reads ::
  "plugin \<Rightarrow> 's RateLimitStorage \<Rightarrow> request_context \<Rightarrow> string \<Rightarrow> clock list \<Rightarrow> pattern_cache \<times> 's
     \<Rightarrow> (error + RateLimitEntry option) list" where
  "reads pl storage ctx k [] st = []"
| "reads pl storage ctx k (clk # clks) st =
     fst (storage_get storage k (atGet clk) (snd st))
       # reads pl storage ctx k clks (snd (checkRateLimit pl storage ctx clk st))"

text \<open>
  Requests of one caller that fall inside one live window: the first, with the clock
  readings \<open>clk0\<close>, opens the window at its \<open>now\<close>; each later one finds an entry in the
  store, and reads the clock, for \<open>now\<close> and in \<open>shouldRateLimit\<close>, before the window ends.
\<close>

definition one_window ::
  "plugin \<Rightarrow> 's RateLimitStorage \<Rightarrow> request_context \<Rightarrow> string \<Rightarrow> clock \<Rightarrow> clock list
     \<Rightarrow> pattern_cache \<times> 's \<Rightarrow> bool" where
  "one_window pl storage ctx i clk0 clks st =
     (let rule = resolveRule (body_path ctx) (customRules pl);
          windowEnd = atNow clk0 + currentWindow pl rule * 1000
      in opens_window (currentMax pl rule) (currentWindow pl rule) clk0
           (fst (storage_get storage (''rl:'' @ i) (atGet clk0) (snd st)))
       \<and> list_all finds_entry
           (reads pl storage ctx (''rl:'' @ i) clks (snd (checkRateLimit pl storage ctx clk0 st)))
       \<and> list_all (\<lambda>clk. atNow clk < windowEnd \<and> atShouldRateLimit clk < windowEnd) clks)"

text \<open>What each backend holds under a key: the entry that \<open>get\<close> hands out while it is kept.\<close>

definition memory_holds :: "string \<Rightarrow> memory \<Rightarrow> RateLimitEntry \<Rightarrow> bool" where
  "memory_holds k m d = (case m k of None \<Rightarrow> False | Some me \<Rightarrow> data me = d)"

definition entry_of :: "db_row \<Rightarrow> RateLimitEntry" where
  "entry_of row =
     \<lparr>key = row_key row, count = row_count row,
      lastRequest = (case row_lastRequest row of BigInt n \<Rightarrow> n | Number n \<Rightarrow> n)\<rparr>"

definition table_holds :: "string \<Rightarrow> db_row list database \<Rightarrow> RateLimitEntry \<Rightarrow> bool" where
  "table_holds k st d =
     (case filter (\<lambda>r. row_key r = k) (fst st) of [] \<Rightarrow> False | row # rest \<Rightarrow> entry_of row = d)"

definition cache_holds :: "json_codec \<Rightarrow> string \<Rightarrow> ttl_store \<Rightarrow> RateLimitEntry \<Rightarrow> bool" where
  "cache_holds json k c d =
     (case c k of None \<Rightarrow> False | Some entry \<Rightarrow> fst entry = json_stringify json d)"

text \<open>
  A store keeps the entries of a key \<open>k\<close>, in the sense of \<open>holds\<close>, when \<open>get\<close> hands out
  nothing but the entry the store holds and leaves it there, and \<open>set\<close> succeeds and leaves
  the store holding the entry it was given: as an update with the count incremented, as a
  creation after \<open>get\<close> found nothing, and as an update that restarts the window of an entry
  that \<open>get\<close> found.
\<close>

definition keeps :: "'s RateLimitStorage \<Rightarrow> string \<Rightarrow> ('s \<Rightarrow> RateLimitEntry \<Rightarrow> bool) \<Rightarrow> bool" where
  "keeps S k holds =
     ((\<forall>s d t e s1. holds s d \<and> storage_get S k t s = (Inr (Some e), s1) \<longrightarrow> e = d \<and> holds s1 d)
    \<and> (\<forall>s d t. holds s d \<longrightarrow>
          (\<exists>s2. storage_set S k (d\<lparr>count := count d + 1\<rparr>) True t s = (Inr (), s2)
               \<and> holds s2 (d\<lparr>count := count d + 1\<rparr>)))
    \<and> (\<forall>s t s1 v t'. storage_get S k t s = (Inr None, s1) \<and> key v = k \<longrightarrow>
          (\<exists>s2. storage_set S k v False t' s1 = (Inr (), s2) \<and> holds s2 v))
    \<and> (\<forall>s t e s1 n t'. storage_get S k t s = (Inr (Some e), s1) \<longrightarrow>
          (\<exists>s2. storage_set S k (e\<lparr>count := 1, lastRequest := n\<rparr>) True t' s1 = (Inr (), s2)
               \<and> holds s2 (e\<lparr>count := 1, lastRequest := n\<rparr>))))"



section \<open>Comparing the backends\<close>



text \<open>
  The memory store and the table hold the same entries: for every key, the table has a row
  exactly when the memory store has an entry, expired or not, and the row is that entry.
\<close>

definition row_of :: "RateLimitEntry \<Rightarrow> db_row" where
  "row_of e = \<lparr>row_key = key e, row_count = count e, row_lastRequest = Number (lastRequest e)\<rparr>"


text \<open>
  The memory backend drops an entry once \<open>Date.now()\<close>, read in \<open>get\<close>, has reached its
  \<open>expiresAt\<close>, which is the default window after the last write; the durable backend never
  drops one. A request does not notice the difference when the entry of its key is still
  kept, or when the handler would restart the window of that entry if it found it.
\<close>

definition kept_or_elapsed :: "plugin \<Rightarrow> request_context \<times> clock \<Rightarrow> memory \<Rightarrow> bool" where
  "kept_or_elapsed pl rq m =
     (let ctx = fst rq; clk = snd rq;
          rule = resolveRule (body_path ctx) (customRules pl)
      in case resolveIdentifier ctx (detection pl) (body_path ctx) of
           None \<Rightarrow> True
         | Some i \<Rightarrow>
             (case m (''rl:'' @ i) of
                None \<Rightarrow> True
              | Some me \<Rightarrow>
                  rule = Some Disabled
                  \<or> atGet clk < expiresAt me
                  \<or> opens_window (currentMax pl rule) (currentWindow pl rule) clk
                       (Inr (Some (data me)))))"

text \<open>The same for every request of a sequence, each with the store the requests before it left.\<close>

fun never_drops_live :: "plugin \<Rightarrow> (request_context \<times> clock) list \<Rightarrow> pattern_cache \<times> memory \<Rightarrow> bool" where
  "never_drops_live pl [] st = True"
| "never_drops_live pl (rq # rqs) st =
     (kept_or_elapsed pl rq (snd st)
      \<and> never_drops_live pl rqs
          (snd (checkRateLimit pl (createMemoryStorage (defaultWindow pl)) (fst rq) (snd rq) st)))"


text \<open>
  A codec that round-trips, for examples: the two numbers in unary with a sign, then the
  key, separated by commas.
\<close>

definition enc_int :: "int \<Rightarrow> string" where
  "enc_int n = (if n < 0 then CHR ''-'' else CHR ''+'') # replicate (nat \<bar>n\<bar>) CHR ''1''"

definition dec_int :: "string \<Rightarrow> (int \<times> string) option" where
  "dec_int s =
     (case s of
        [] \<Rightarrow> None
      | c # r \<Rightarrow>
          if c = CHR ''-'' \<or> c = CHR ''+'' then
            (case dropWhile (\<lambda>x. x = CHR ''1'') r of
               [] \<Rightarrow> None
             | d # rest \<Rightarrow>
                 if d = CHR '','' then
                   Some ((if c = CHR ''-'' then - 1 else 1)
                           * int (length (takeWhile (\<lambda>x. x = CHR ''1'') r)), rest)
                 else None)
          else None)"

definition unary_codec :: json_codec where
  "unary_codec =
     \<lparr>json_stringify = (\<lambda>e. enc_int (count e) @ '','' @ enc_int (lastRequest e) @ '','' @ key e),
      json_parse = (\<lambda>s.
        case dec_int s of
          None \<Rightarrow> None
        | Some (c, r) \<Rightarrow>
            (case dec_int r of
               None \<Rightarrow> None
             | Some (l, k) \<Rightarrow> Some \<lparr>key = k, count = c, lastRequest = l\<rparr>))\<rparr>"

section \<open>Properties of the decision engine\<close>

subsection \<open>Evaluation\<close>

lemma getRetryAfter_div: "getRetryAfter l w t = - ((t - l - w * 1000) div 1000)"
  using ceiling_divide_eq_div [of "l + w * 1000 - t" 1000, where ?'a = real]
  by (simp add: getRetryAfter_def algebra_simps)

lemmas example_defs =
  ip_plugin_def user_plugin_def caller_def caller_key_def opened_def used_up_def rateLimiter_def

lemmas engine_defs =
  checkRateLimit_def findMatchingRule_def resolveIdentifier_def ip_identifier_def
  currentMax_def currentWindow_def countRequest_def instant_def shouldRateLimit_def
  getRetryAfter_div Let_def

lemmas memory_defs = createMemoryStorage_def memory_get_def memory_set_def

lemmas database_defs = createDatabaseStorage_def database_get_def database_set_def table_adapter_def

lemmas secondary_defs =
  createSecondaryStorageWrapper_def secondary_get_def secondary_set_def test_secondaryStorage_def

subsection \<open>The handler, case by case\<close>

lemma ip_identifier_nonempty: "ip_identifier ctx path = Some i \<Longrightarrow> i \<noteq> []"
  by (auto simp: ip_identifier_def split: option.splits if_splits)

lemma resolveIdentifier_nonempty: "resolveIdentifier ctx mode path = Some i \<Longrightarrow> i \<noteq> []"
  by (auto simp: resolveIdentifier_def dest: ip_identifier_nonempty
      split: option.splits sum.splits if_splits)

lemma checkRateLimit_counted:
  assumes "findMatchingRule (body_path ctx) (customRules pl) cache = (rule, cache')"
    and "rule \<noteq> Some Disabled"
    and "resolveIdentifier ctx (detection pl) (body_path ctx) = Some i"
  shows "checkRateLimit pl storage ctx clk (cache, s) =
           (fst (countRequest (currentMax pl rule) (currentWindow pl rule) storage i clk s),
            (cache', snd (countRequest (currentMax pl rule) (currentWindow pl rule) storage i clk s)))"
  using assms resolveIdentifier_nonempty [OF assms(3)]
  by (auto simp: checkRateLimit_def Let_def split: prod.splits option.splits)

lemma checkRateLimit_no_identity:
  assumes "findMatchingRule (body_path ctx) (customRules pl) cache = (rule, cache')"
    and "rule \<noteq> Some Disabled"
    and "resolveIdentifier ctx (detection pl) (body_path ctx) = None"
  shows "checkRateLimit pl storage ctx clk (cache, s) =
           (Inr \<lparr>success = True, limit = currentMax pl rule, remaining = currentMax pl rule,
                 retryAfter = None, resetAt = None, message = None\<rparr>, (cache', s))"
  using assms
  by (auto simp: checkRateLimit_def Let_def split: prod.splits option.splits)

lemma checkRateLimit_disabled:
  assumes "findMatchingRule (body_path ctx) (customRules pl) cache = (Some Disabled, cache')"
  shows "checkRateLimit pl storage ctx clk (cache, s) =
           (Inr \<lparr>success = True, limit = 0, remaining = 0, retryAfter = None, resetAt = None,
                 message = None\<rparr>, (cache', s))"
  using assms by (simp add: checkRateLimit_def)

text \<open>Every response that is not an admission comes out of \<open>countRequest\<close>.\<close>

lemma checkRateLimit_rejected:
  assumes "fst (checkRateLimit pl storage ctx clk st) = Inr r" and "\<not> success r"
  shows "\<exists>rule cache' i.
           findMatchingRule (body_path ctx) (customRules pl) (fst st) = (rule, cache')
         \<and> rule \<noteq> Some Disabled
         \<and> resolveIdentifier ctx (detection pl) (body_path ctx) = Some i
         \<and> fst (countRequest (currentMax pl rule) (currentWindow pl rule) storage i clk (snd st)) = Inr r
         \<and> snd (checkRateLimit pl storage ctx clk st) =
             (cache', snd (countRequest (currentMax pl rule) (currentWindow pl rule) storage i clk (snd st)))"
proof -
  obtain rule cache' where f: "findMatchingRule (body_path ctx) (customRules pl) (fst st) = (rule, cache')"
    by (cases "findMatchingRule (body_path ctx) (customRules pl) (fst st)")
  have st: "st = (fst st, snd st)" by simp
  have nd: "rule \<noteq> Some Disabled"
  proof
    assume "rule = Some Disabled"
    with f have "checkRateLimit pl storage ctx clk (fst st, snd st) =
           (Inr \<lparr>success = True, limit = 0, remaining = 0, retryAfter = None, resetAt = None,
                 message = None\<rparr>, (cache', snd st))"
      by (intro checkRateLimit_disabled) simp
    with assms show False by auto
  qed
  show ?thesis
  proof (cases "resolveIdentifier ctx (detection pl) (body_path ctx)")
    case None
    from checkRateLimit_no_identity [OF f nd None, of storage clk "snd st"] assms
    show ?thesis by auto
  next
    case (Some i)
    from checkRateLimit_counted [OF f nd Some, of storage clk "snd st"] assms f nd Some
    show ?thesis by auto
  qed
qed

lemma countRequest_rejected:
  assumes "fst (countRequest mx w storage i clk s) = Inr r" and "\<not> success r"
  shows "\<exists>d s1. storage_get storage (''rl:'' @ i) (atGet clk) s = (Inr (Some d), s1)
            \<and> shouldRateLimit mx w d (atShouldRateLimit clk)
            \<and> r = \<lparr>success = False, limit = mx, remaining = 0,
                    retryAfter = Some (getRetryAfter (lastRequest d) w (atGetRetryAfter clk)),
                    resetAt = Some (lastRequest d + w * 1000),
                    message = Some RATE_LIMITED_message\<rparr>
            \<and> snd (countRequest mx w storage i clk s) = s1"
  using assms
  by (auto simp: countRequest_def Let_def split: prod.splits sum.splits option.splits if_splits)

subsection \<open>The advertised wait\<close>

lemma getRetryAfter_positive: "1 \<le> getRetryAfter l w t \<longleftrightarrow> t < l + w * 1000"
proof -
  have "1 \<le> getRetryAfter l w t \<longleftrightarrow> 0 < \<lceil>real_of_int (l + w * 1000 - t) / 1000\<rceil>"
    by (simp add: getRetryAfter_def Let_def)
  also have "\<dots> \<longleftrightarrow> 0 < real_of_int (l + w * 1000 - t) / 1000"
    by (simp only: zero_less_ceiling)
  also have "\<dots> \<longleftrightarrow> 0 < real_of_int (l + w * 1000 - t)"
    by (simp only: zero_less_divide_iff) simp
  also have "\<dots> \<longleftrightarrow> 0 < l + w * 1000 - t"
    by (simp only: of_int_0_less_iff)
  also have "\<dots> \<longleftrightarrow> t < l + w * 1000" by arith
  finally show ?thesis .
qed

text \<open>
  A rejection carries the wait that \<open>getRetryAfter\<close> computes from the entry read, at its
  own reading of the clock; the wait is at least one second exactly when that reading is
  still before the end of the window, as the reading in \<open>shouldRateLimit\<close> was.
\<close>

lemma retryAfter_of_rejection:
  assumes "fst (checkRateLimit pl storage ctx clk st) = Inr r"
    and "\<not> success r"
  shows "\<exists>(d::RateLimitEntry) w.
           retryAfter r = Some (getRetryAfter (lastRequest d) w (atGetRetryAfter clk))
         \<and> resetAt r = Some (lastRequest d + w * 1000)
         \<and> atShouldRateLimit clk < lastRequest d + w * 1000
         \<and> (1 \<le> getRetryAfter (lastRequest d) w (atGetRetryAfter clk)
              \<longleftrightarrow> atGetRetryAfter clk < lastRequest d + w * 1000)"
proof -
  from checkRateLimit_rejected [OF assms(1,2)] obtain rule i
    where "fst (countRequest (currentMax pl rule) (currentWindow pl rule) storage i clk (snd st)) = Inr r"
    by blast
  from countRequest_rejected [OF this assms(2)] obtain d
    where "shouldRateLimit (currentMax pl rule) (currentWindow pl rule) d (atShouldRateLimit clk)"
      and "retryAfter r = Some (getRetryAfter (lastRequest d) (currentWindow pl rule) (atGetRetryAfter clk))"
      and "resetAt r = Some (lastRequest d + currentWindow pl rule * 1000)"
    by auto
  moreover from this(1) have "atShouldRateLimit clk < lastRequest d + currentWindow pl rule * 1000"
    by (simp add: shouldRateLimit_def Let_def)
  ultimately show ?thesis
    by - (rule exI [of _ d], rule exI [of _ "currentWindow pl rule"], simp add: getRetryAfter_positive)
qed

lemma used_up_rejected:
  "checkRateLimit ip_plugin (createMemoryStorage 10) caller (instant 9999) (Map.empty, used_up) =
     (Inr \<lparr>success = False, limit = 2, remaining = 0, retryAfter = Some 1,
           resetAt = Some 10000, message = Some RATE_LIMITED_message\<rparr>, (Map.empty, used_up))"
  by (simp add: example_defs engine_defs memory_defs)

text \<open>
  C10. The claim holds when a request sees one instant \<open>now\<close>, but the handler reads the
  clock twice: \<open>shouldRateLimit\<close> decides to reject at its reading (line 80), and
  \<open>getRetryAfter\<close> computes the wait at a later one (line 87). With two requests per ten
  seconds counted since 0, a request that \<open>shouldRateLimit\<close> sees at 9999 ms is rejected; if
  the clock has reached 10000 ms when \<open>getRetryAfter\<close> reads it, the rejection carries
  \<open>retryAfter = 0\<close>, and if it has reached 11001 ms, \<open>retryAfter = - 1\<close>. When both read 9999,
  the wait is one second.
\<close>

theorem retryAfter_not_positive:
  "checkRateLimit ip_plugin (createMemoryStorage 10) caller
     \<lparr>atGet = 9999, atNow = 9999, atShouldRateLimit = 9999, atGetRetryAfter = 10000, atSet = 10000\<rparr>
     (Map.empty, used_up) =
     (Inr \<lparr>success = False, limit = 2, remaining = 0, retryAfter = Some 0,
           resetAt = Some 10000, message = Some RATE_LIMITED_message\<rparr>, (Map.empty, used_up))
   \<and> checkRateLimit ip_plugin (createMemoryStorage 10) caller
       \<lparr>atGet = 9999, atNow = 9999, atShouldRateLimit = 9999, atGetRetryAfter = 11001, atSet = 11001\<rparr>
       (Map.empty, used_up) =
     (Inr \<lparr>success = False, limit = 2, remaining = 0, retryAfter = Some (- 1),
           resetAt = Some 10000, message = Some RATE_LIMITED_message\<rparr>, (Map.empty, used_up))
   \<and> checkRateLimit ip_plugin (createMemoryStorage 10) caller
       \<lparr>atGet = 9999, atNow = 9999, atShouldRateLimit = 9999, atGetRetryAfter = 9999, atSet = 9999\<rparr>
       (Map.empty, used_up) =
     (Inr \<lparr>success = False, limit = 2, remaining = 0, retryAfter = Some 1,
           resetAt = Some 10000, message = Some RATE_LIMITED_message\<rparr>, (Map.empty, used_up))"
  by (simp add: example_defs engine_defs memory_defs)

subsection \<open>Requests without an identity\<close>

lemma resolveIdentifier_session_throws:
  "resolveIdentifier (ctx\<lparr>session := Inl e\<rparr>) mode path =
   resolveIdentifier (ctx\<lparr>session := Inr None\<rparr>) mode path"
  by (simp add: resolveIdentifier_def ip_identifier_def)

lemma checkRateLimit_session_throws:
  "checkRateLimit pl storage (ctx\<lparr>session := Inl e\<rparr>) clk st =
   checkRateLimit pl storage (ctx\<lparr>session := Inr None\<rparr>) clk st"
  by (simp add: checkRateLimit_def Let_def resolveIdentifier_session_throws split: prod.splits)

text \<open>
  C8. When the rule of the path is not the disabled marker (so that there is a
  \<open>maxRequests\<close>) and no identity can be determined, the handler admits the request with
  \<open>limit = remaining = maxRequests\<close> and no \<open>resetAt\<close>, whatever the store and its state
  are, and hands the store back as it found it: neither \<open>get\<close> nor \<open>set\<close> is consulted. A
  session lookup that throws gives no identity under detection by user, and the handler
  answers it exactly as it answers a lookup that finds no session; no error is returned.
\<close>

theorem no_identity_bypass:
  assumes "findMatchingRule (body_path ctx) (customRules pl) cache = (rule, cache')"
    and "rule \<noteq> Some Disabled"
    and "resolveIdentifier ctx (detection pl) (body_path ctx) = None"
  shows "checkRateLimit pl storage ctx clk (cache, s) =
           (Inr \<lparr>success = True, limit = currentMax pl rule, remaining = currentMax pl rule,
                 retryAfter = None, resetAt = None, message = None\<rparr>, (cache', s))
       \<and> resolveIdentifier (ctx\<lparr>session := Inl e\<rparr>) User path = None
       \<and> checkRateLimit pl storage (ctx\<lparr>session := Inl e\<rparr>) clk (cache, s) =
         checkRateLimit pl storage (ctx\<lparr>session := Inr None\<rparr>) clk (cache, s)"
proof (intro conjI)
  show "checkRateLimit pl storage ctx clk (cache, s) =
           (Inr \<lparr>success = True, limit = currentMax pl rule, remaining = currentMax pl rule,
                 retryAfter = None, resetAt = None, message = None\<rparr>, (cache', s))"
    by (rule checkRateLimit_no_identity [OF assms])
  show "resolveIdentifier (ctx\<lparr>session := Inl e\<rparr>) User path = None"
    by (simp add: resolveIdentifier_def)
  show "checkRateLimit pl storage (ctx\<lparr>session := Inl e\<rparr>) clk (cache, s) =
         checkRateLimit pl storage (ctx\<lparr>session := Inr None\<rparr>) clk (cache, s)"
    by (rule checkRateLimit_session_throws)
qed

theorem no_identity_bypass_witness:
  "findMatchingRule (body_path (caller\<lparr>session := Inl (Thrown ''session store down'')\<rparr>))
     (customRules user_plugin) Map.empty = (None, Map.empty)
   \<and> (None :: rule_setting option) \<noteq> Some Disabled
   \<and> resolveIdentifier (caller\<lparr>session := Inl (Thrown ''session store down'')\<rparr>)
       (detection user_plugin) (body_path (caller\<lparr>session := Inl (Thrown ''session store down'')\<rparr>)) = None
   \<and> checkRateLimit user_plugin (createMemoryStorage 10)
       (caller\<lparr>session := Inl (Thrown ''session store down'')\<rparr>) (instant 0) (Map.empty, used_up) =
     (Inr \<lparr>success = True, limit = 2, remaining = 2, retryAfter = None, resetAt = None,
           message = None\<rparr>, (Map.empty, used_up))"
proof -
  let ?ctx = "caller\<lparr>session := Inl (Thrown ''session store down'')\<rparr>"
  have a: "findMatchingRule (body_path ?ctx) (customRules user_plugin) Map.empty = (None, Map.empty)"
    by (simp add: findMatchingRule_def example_defs)
  have b: "(None :: rule_setting option) \<noteq> Some Disabled" by simp
  have c: "resolveIdentifier ?ctx (detection user_plugin) (body_path ?ctx) = None"
    by (simp add: resolveIdentifier_def example_defs)
  have d: "currentMax user_plugin None = 2"
    by (simp add: currentMax_def example_defs)
  from no_identity_bypass [OF a b c, THEN conjunct1, of "createMemoryStorage 10" "instant 0" used_up]
    a c d
  show ?thesis by simp
qed

subsection \<open>What each branch of the handler does\<close>

lemma countRequest_found:
  assumes "storage_get storage (''rl:'' @ i) (atGet clk) s = (Inr (Some d), s1)"
  shows "countRequest mx w storage i clk s =
     (if shouldRateLimit mx w d (atShouldRateLimit clk) then
        (Inr \<lparr>success = False, limit = mx, remaining = 0,
              retryAfter = Some (getRetryAfter (lastRequest d) w (atGetRetryAfter clk)),
              resetAt = Some (lastRequest d + w * 1000),
              message = Some RATE_LIMITED_message\<rparr>, s1)
      else if atNow clk - lastRequest d > w * 1000 then
        (case storage_set storage (''rl:'' @ i) (d\<lparr>count := 1, lastRequest := atNow clk\<rparr>) True
                (atSet clk) s1 of
           (Inl e, s2) \<Rightarrow> (Inl e, s2)
         | (Inr u, s2) \<Rightarrow>
             (Inr \<lparr>success = True, limit = mx, remaining = mx - 1, retryAfter = None,
                   resetAt = Some (atNow clk + w * 1000), message = None\<rparr>, s2))
      else
        (case storage_set storage (''rl:'' @ i) (d\<lparr>count := count d + 1\<rparr>) True (atSet clk) s1 of
           (Inl e, s2) \<Rightarrow> (Inl e, s2)
         | (Inr u, s2) \<Rightarrow>
             (Inr \<lparr>success = True, limit = mx, remaining = max 0 (mx - (count d + 1)),
                   retryAfter = None, resetAt = Some (lastRequest d + w * 1000),
                   message = None\<rparr>, s2)))"
  using assms by (simp add: countRequest_def Let_def)

lemma countRequest_absent:
  assumes "storage_get storage (''rl:'' @ i) (atGet clk) s = (Inr None, s1)"
  shows "countRequest mx w storage i clk s =
     (case storage_set storage (''rl:'' @ i)
             \<lparr>key = ''rl:'' @ i, count = 1, lastRequest = atNow clk\<rparr> False (atSet clk) s1 of
        (Inl e, s2) \<Rightarrow> (Inl e, s2)
      | (Inr u, s2) \<Rightarrow>
          (Inr \<lparr>success = True, limit = mx, remaining = mx - 1, retryAfter = None,
                resetAt = Some (atNow clk + w * 1000), message = None\<rparr>, s2))"
  using assms by (simp add: countRequest_def Let_def)


lemma memory_get_found:
  assumes "memory_get k t m = (Inr (Some d), m')"
  shows "m' = m \<and> (\<exists>x. m k = Some \<lparr>data = d, expiresAt = x\<rparr> \<and> t < x)"
proof (cases "m k")
  case None
  with assms show ?thesis by (simp add: memory_get_def)
next
  case (Some entry)
  with assms have "m' = m" and "d = data entry" and "t < expiresAt entry"
    by (auto simp: memory_get_def split: if_splits)
  moreover have "entry = \<lparr>data = data entry, expiresAt = expiresAt entry\<rparr>" by simp
  ultimately show ?thesis using Some by metis
qed

subsection \<open>Rejections\<close>

text \<open>
  C5. A rejected request has read an entry whose window is live and whose count has
  reached the limit, and that read is the only access to the store: the state after the
  call is the state the read left, and the outcome is the same whatever \<open>set\<close> is, because
  \<open>set\<close> is never called. With a backend whose successful reads leave its state alone (the
  memory backend is one, by \<open>memory_get_found\<close>), the store after the call is the store before
  it, so the stored count and window start are unchanged.
\<close>

theorem rejection_leaves_store:
  assumes "checkRateLimit pl storage ctx clk (cache, s) = (Inr r, (cache', s'))"
    and "\<not> success r"
  shows "\<exists>rule i d.
           fst (findMatchingRule (body_path ctx) (customRules pl) cache) = rule
         \<and> resolveIdentifier ctx (detection pl) (body_path ctx) = Some i
         \<and> storage_get storage (''rl:'' @ i) (atGet clk) s = (Inr (Some d), s')
         \<and> atShouldRateLimit clk - lastRequest d < currentWindow pl rule * 1000
         \<and> count d \<ge> currentMax pl rule
         \<and> (\<forall>set'. checkRateLimit pl (storage\<lparr>storage_set := set'\<rparr>) ctx clk (cache, s) =
                (Inr r, (cache', s')))
         \<and> ((\<forall>k t x e y. storage_get storage k t x = (Inr (Some e), y) \<longrightarrow> y = x) \<longrightarrow> s' = s)"
proof -
  from assms have a: "fst (checkRateLimit pl storage ctx clk (cache, s)) = Inr r" by simp
  from checkRateLimit_rejected [OF a assms(2)] obtain rule c i
    where f: "findMatchingRule (body_path ctx) (customRules pl) cache = (rule, c)"
      and nd: "rule \<noteq> Some Disabled"
      and i: "resolveIdentifier ctx (detection pl) (body_path ctx) = Some i"
      and cr: "fst (countRequest (currentMax pl rule) (currentWindow pl rule) storage i clk s) = Inr r"
      and st: "snd (checkRateLimit pl storage ctx clk (cache, s)) =
                 (c, snd (countRequest (currentMax pl rule) (currentWindow pl rule) storage i clk s))"
    by auto
  from countRequest_rejected [OF cr assms(2)] obtain d s1
    where g: "storage_get storage (''rl:'' @ i) (atGet clk) s = (Inr (Some d), s1)"
      and lim: "shouldRateLimit (currentMax pl rule) (currentWindow pl rule) d (atShouldRateLimit clk)"
      and s1: "snd (countRequest (currentMax pl rule) (currentWindow pl rule) storage i clk s) = s1"
    by auto
  from st s1 assms(1) have eq: "c = cache'" "s1 = s'" by simp_all
  have other: "checkRateLimit pl (storage\<lparr>storage_set := set'\<rparr>) ctx clk (cache, s) =
                 (Inr r, (cache', s'))" for set'
  proof -
    have g': "storage_get (storage\<lparr>storage_set := set'\<rparr>) (''rl:'' @ i) (atGet clk) s =
                (Inr (Some d), s1)"
      using g by simp
    have "countRequest (currentMax pl rule) (currentWindow pl rule) (storage\<lparr>storage_set := set'\<rparr>)
            i clk s =
          countRequest (currentMax pl rule) (currentWindow pl rule) storage i clk s"
      using lim by (simp add: countRequest_found [OF g] countRequest_found [OF g'])
    with checkRateLimit_counted [OF f nd i, of "storage\<lparr>storage_set := set'\<rparr>" clk s]
      checkRateLimit_counted [OF f nd i, of storage clk s] assms(1)
    show ?thesis by simp
  qed
  from lim have "atShouldRateLimit clk - lastRequest d < currentWindow pl rule * 1000"
    and "count d \<ge> currentMax pl rule"
    by (simp_all add: shouldRateLimit_def Let_def)
  with f i g eq other show ?thesis
    by (intro exI [of _ rule] exI [of _ i] exI [of _ d]) auto
qed

theorem rejection_leaves_store_witness:
  "checkRateLimit ip_plugin (createMemoryStorage 10) caller (instant 9999) (Map.empty, used_up) =
     (Inr \<lparr>success = False, limit = 2, remaining = 0, retryAfter = Some 1,
           resetAt = Some 10000, message = Some RATE_LIMITED_message\<rparr>, (Map.empty, used_up))
   \<and> storage_get (createMemoryStorage 10) caller_key 9999 used_up =
       (Inr (Some \<lparr>key = caller_key, count = 2, lastRequest = 0\<rparr>), used_up)
   \<and> checkRateLimit ip_plugin
       (createMemoryStorage 10\<lparr>storage_set := \<lambda>k v u t m. (Inl (Thrown ''never called''), Map.empty)\<rparr>)
       caller (instant 9999) (Map.empty, used_up) =
     (Inr \<lparr>success = False, limit = 2, remaining = 0, retryAfter = Some 1,
           resetAt = Some 10000, message = Some RATE_LIMITED_message\<rparr>, (Map.empty, used_up))"
proof -
  let ?r = "\<lparr>success = False, limit = 2, remaining = 0, retryAfter = Some 1,
             resetAt = Some 10000, message = Some RATE_LIMITED_message\<rparr>"
  have b: "\<not> success ?r" by simp
  from rejection_leaves_store [OF used_up_rejected b]
  have "checkRateLimit ip_plugin
       (createMemoryStorage 10\<lparr>storage_set := \<lambda>k v u t m. (Inl (Thrown ''never called''), Map.empty)\<rparr>)
       caller (instant 9999) (Map.empty, used_up) = (Inr ?r, (Map.empty, used_up))"
    by blast
  moreover have "storage_get (createMemoryStorage 10) caller_key 9999 used_up =
       (Inr (Some \<lparr>key = caller_key, count = 2, lastRequest = 0\<rparr>), used_up)"
    by (simp add: memory_defs example_defs)
  ultimately show ?thesis using used_up_rejected by simp
qed

subsection \<open>Elapsed windows\<close>

text \<open>
  C2, as the code has it. The window restarts when strictly more than \<open>windowMs\<close> has
  passed since the stored window start (the comment on \<open>lastRequest\<close> in src/types.ts says
  the same): for a request that finds an entry with \<open>now - lastRequest > windowMs\<close>, whatever
  its count, the handler writes the entry back with \<open>count = 1\<close> and \<open>lastRequest = now\<close>
  as an update, and answers \<open>success\<close>, \<open>limit = maxRequests\<close>,
  \<open>remaining = maxRequests - 1\<close>, \<open>resetAt = now + windowMs\<close>. The clock is read for \<open>now\<close>
  before \<open>shouldRateLimit\<close> reads it.
\<close>

theorem elapsed_window_resets:
  assumes "findMatchingRule (body_path ctx) (customRules pl) cache = (rule, cache')"
    and "rule \<noteq> Some Disabled"
    and "resolveIdentifier ctx (detection pl) (body_path ctx) = Some i"
    and "storage_get storage (''rl:'' @ i) (atGet clk) s = (Inr (Some d), s1)"
    and "atNow clk - lastRequest d > currentWindow pl rule * 1000"
    and "atNow clk \<le> atShouldRateLimit clk"
    and "storage_set storage (''rl:'' @ i) (d\<lparr>count := 1, lastRequest := atNow clk\<rparr>) True
           (atSet clk) s1 = (Inr (), s2)"
  shows "checkRateLimit pl storage ctx clk (cache, s) =
           (Inr \<lparr>success = True, limit = currentMax pl rule, remaining = currentMax pl rule - 1,
                 retryAfter = None, resetAt = Some (atNow clk + currentWindow pl rule * 1000),
                 message = None\<rparr>, (cache', s2))"
proof -
  from assms(5,6) have "\<not> shouldRateLimit (currentMax pl rule) (currentWindow pl rule) d
                           (atShouldRateLimit clk)"
    by (simp add: shouldRateLimit_def Let_def)
  with assms(5,7) show ?thesis
    by (simp add: checkRateLimit_counted [OF assms(1-3)] countRequest_found [OF assms(4)])
qed

theorem elapsed_window_resets_witness:
  "findMatchingRule (body_path caller) (customRules ip_plugin) Map.empty = (None, Map.empty)
   \<and> resolveIdentifier caller (detection ip_plugin) (body_path caller) = Some ''10.0.0.80|/api/expiry''
   \<and> storage_get (createMemoryStorage 10) (''rl:'' @ ''10.0.0.80|/api/expiry'') 10001 used_up =
       (Inr (Some \<lparr>key = caller_key, count = 2, lastRequest = 0\<rparr>), used_up)
   \<and> (10001::int) - 0 > 10 * 1000
   \<and> checkRateLimit ip_plugin (createMemoryStorage 10) caller (instant 10001) (Map.empty, used_up) =
       (Inr \<lparr>success = True, limit = 2, remaining = 1, retryAfter = None, resetAt = Some 20001,
             message = None\<rparr>,
        (Map.empty, used_up(caller_key \<mapsto>
           \<lparr>data = \<lparr>key = caller_key, count = 1, lastRequest = 10001\<rparr>, expiresAt = 20001\<rparr>)))"
proof -
  let ?d = "\<lparr>key = caller_key, count = 2, lastRequest = 0\<rparr>"
  let ?s2 = "used_up(caller_key \<mapsto>
           \<lparr>data = \<lparr>key = caller_key, count = 1, lastRequest = 10001\<rparr>, expiresAt = 20001\<rparr>)"
  have a: "findMatchingRule (body_path caller) (customRules ip_plugin) Map.empty = (None, Map.empty)"
    by (simp add: findMatchingRule_def example_defs)
  have b: "(None :: rule_setting option) \<noteq> Some Disabled" by simp
  have c: "resolveIdentifier caller (detection ip_plugin) (body_path caller) = Some ''10.0.0.80|/api/expiry''"
    by (simp add: resolveIdentifier_def ip_identifier_def example_defs)
  have d: "storage_get (createMemoryStorage 10) (''rl:'' @ ''10.0.0.80|/api/expiry'')
             (atGet (instant 10001)) used_up = (Inr (Some ?d), used_up)"
    by (simp add: memory_defs example_defs instant_def)
  have e: "atNow (instant 10001) - lastRequest ?d > currentWindow ip_plugin None * 1000"
    by (simp add: instant_def currentWindow_def example_defs)
  have f: "atNow (instant 10001) \<le> atShouldRateLimit (instant 10001)"
    by (simp add: instant_def)
  have g: "storage_set (createMemoryStorage 10) (''rl:'' @ ''10.0.0.80|/api/expiry'')
             (?d\<lparr>count := 1, lastRequest := atNow (instant 10001)\<rparr>) True
             (atSet (instant 10001)) used_up = (Inr (), ?s2)"
    by (simp add: memory_defs example_defs instant_def)
  from elapsed_window_resets [OF a b c d e f g] a c d
  show ?thesis
    by (simp add: instant_def currentWindow_def currentMax_def example_defs)
qed

text \<open>
  The claim as the specification words it, with \<open>now - windowStart \<ge> windowMs\<close>, fails at
  equality. Two requests at 0 and 5000 ms leave an entry with window start 0 that the
  memory backend keeps until 15000 ms; a third request at exactly 10000 ms finds it, with
  \<open>now - windowStart = windowMs\<close>, and the handler counts it into the old window (count 3,
  window start 0, \<open>remaining = 0\<close>, \<open>resetAt = 10000\<close>) instead of starting a new one
  (count 1, window start 10000, \<open>remaining = 1\<close>, \<open>resetAt = 20000\<close>).
\<close>

theorem elapsed_at_boundary_counterexample:
  "snd (served ip_plugin (createMemoryStorage 10) (at_instants caller [0, 5000])
          (Map.empty, Map.empty)) = used_up
   \<and> storage_get (createMemoryStorage 10) caller_key 10000 used_up =
       (Inr (Some \<lparr>key = caller_key, count = 2, lastRequest = 0\<rparr>), used_up)
   \<and> (10000::int) - 0 \<ge> 10 * 1000
   \<and> checkRateLimit ip_plugin (createMemoryStorage 10) caller (instant 10000) (Map.empty, used_up) =
       (Inr \<lparr>success = True, limit = 2, remaining = 0, retryAfter = None, resetAt = Some 10000,
             message = None\<rparr>,
        (Map.empty, used_up(caller_key \<mapsto>
           \<lparr>data = \<lparr>key = caller_key, count = 3, lastRequest = 0\<rparr>, expiresAt = 20000\<rparr>)))
   \<and> fst (checkRateLimit ip_plugin (createMemoryStorage 10) caller (instant 10000)
            (Map.empty, used_up)) \<noteq>
       Inr \<lparr>success = True, limit = 2, remaining = 2 - 1, retryAfter = None,
            resetAt = Some (10000 + 10 * 1000), message = None\<rparr>"
  by (simp add: at_instants_def example_defs engine_defs memory_defs)

section \<open>Rate-limit keys\<close>








section \<open>Failures of the durable backend\<close>

lemma database_set_never_throws:
  "\<exists>st'. database_set db k v u t st = (Inr (), st')"
  by (auto simp: database_set_def split: prod.splits sum.splits)

lemma database_set_logs:
  assumes "(if u then updateMany db k (count v) (lastRequest v) (fst st)
            else create db \<lparr>key = k, count = count v, lastRequest = lastRequest v\<rparr> (fst st)) = (Inl e, d')"
  shows "database_set db k v u t st = (Inr (), (d', snd st @ [(''Error setting rate limit'', e)]))"
  using assms by (simp add: database_set_def)

lemma database_get_throws:
  assumes "findMany db k (fst st) = (Inl e, d')"
  shows "database_get db k t st = (Inl e, (d', snd st))"
  using assms by (simp add: database_get_def)

lemma database_get_returns:
  assumes "findMany db k (fst st) = (Inr rows, d')"
  shows "\<exists>found. database_get db k t st = (Inr found, (d', snd st))"
  using assms by (auto simp: database_get_def split: list.splits)

lemma countRequest_database_decides:
  assumes "findMany db (''rl:'' @ i) (fst st) = (Inr rows, d')"
  shows "\<exists>r st'. countRequest mx w (createDatabaseStorage db) i clk st = (Inr r, st') 
           \<and> (rows = [] \<longrightarrow> success r)"
proof -
  from database_get_returns [OF assms] obtain found
    where g: "storage_get (createDatabaseStorage db) (''rl:'' @ i) (atGet clk) st =
                (Inr found, (d', snd st))"
    by (auto simp: createDatabaseStorage_def)
  have w: "\<exists>st'. storage_set (createDatabaseStorage db) k v u t x = (Inr (), st')" for k v u t x
    using database_set_never_throws [of db k v u t x] by (simp add: createDatabaseStorage_def)
  have e: "found = None" if "rows = []"
    using that g assms by (simp add: createDatabaseStorage_def database_get_def)
  show ?thesis
  proof (cases found)
    case None
    from w obtain st' where "storage_set (createDatabaseStorage db) (''rl:'' @ i)
        \<lparr>key = ''rl:'' @ i, count = 1, lastRequest = atNow clk\<rparr> False (atSet clk) (d', snd st) = (Inr (), st')"
      by blast
    with None g show ?thesis by (simp add: countRequest_absent)
  next
    case (Some d)
    from w obtain st1 where w1: "storage_set (createDatabaseStorage db) (''rl:'' @ i)
        (d\<lparr>count := 1, lastRequest := atNow clk\<rparr>) True (atSet clk) (d', snd st) = (Inr (), st1)"
      by blast
    from w obtain st2 where w2: "storage_set (createDatabaseStorage db) (''rl:'' @ i)
        (d\<lparr>count := count d + 1\<rparr>) True (atSet clk) (d', snd st) = (Inr (), st2)"
      by blast
    from Some g w1 w2 e show ?thesis by (auto simp: countRequest_found)
  qed
qed

text \<open>
  C4, as the code has it. Only writes fail open. Whatever the adapter does, \<open>set\<close> of the
  durable backend returns normally, and when the adapter's \<open>create\<close> or \<open>updateMany\<close> throws,
  the error is appended to the log and the database is left as the adapter left it. When
  the read of a request succeeds, the handler therefore always returns a decision, and
  with no stored row that decision is an admission even if the write fails. A read that
  throws is not caught: \<open>get\<close> returns the adapter's error.
\<close>

theorem database_writes_fail_open:
  "(\<exists>st'. storage_set (createDatabaseStorage db) k v u t st = (Inr (), st'))
   \<and> ((if u then updateMany db k (count v) (lastRequest v) (fst st)
        else create db \<lparr>key = k, count = count v, lastRequest = lastRequest v\<rparr> (fst st)) = (Inl e, d')
      \<longrightarrow> storage_set (createDatabaseStorage db) k v u t st =
            (Inr (), (d', snd st @ [(''Error setting rate limit'', e)])))
   \<and> (findMany db (''rl:'' @ i) (fst st) = (Inr rows, d')
      \<longrightarrow> (\<exists>r st'. countRequest mx w (createDatabaseStorage db) i clk st = (Inr r, st')
                  \<and> (rows = [] \<longrightarrow> success r)))
   \<and> (findMany db k (fst st) = (Inl e, d')
      \<longrightarrow> storage_get (createDatabaseStorage db) k t st = (Inl e, (d', snd st)))"
  using database_set_never_throws [of db k v u t st] countRequest_database_decides [of db i st rows d' mx w clk]
  by (simp add: createDatabaseStorage_def database_set_logs database_get_throws)

text \<open>An adapter that can read but not write: \<open>create\<close> and \<open>updateMany\<close> throw.\<close>

theorem database_writes_fail_open_witness:
  "findMany (table_adapter\<lparr>create := \<lambda>e rows. (Inl (Thrown ''disk full''), rows)\<rparr>) caller_key [] =
     (Inr [], [])
   \<and> create (table_adapter\<lparr>create := \<lambda>e rows. (Inl (Thrown ''disk full''), rows)\<rparr>)
       \<lparr>key = caller_key, count = 1, lastRequest = 0\<rparr> [] = (Inl (Thrown ''disk full''), [])
   \<and> storage_set
       (createDatabaseStorage (table_adapter\<lparr>create := \<lambda>e rows. (Inl (Thrown ''disk full''), rows)\<rparr>))
       caller_key \<lparr>key = caller_key, count = 1, lastRequest = 0\<rparr> False 0 ([], []) =
     (Inr (), ([], [(''Error setting rate limit'', Thrown ''disk full'')]))
   \<and> checkRateLimit ip_plugin
       (createDatabaseStorage (table_adapter\<lparr>create := \<lambda>e rows. (Inl (Thrown ''disk full''), rows)\<rparr>))
       caller (instant 0) (Map.empty, ([], [])) =
     (Inr \<lparr>success = True, limit = 2, remaining = 1, retryAfter = None, resetAt = Some 10000,
           message = None\<rparr>,
      (Map.empty, ([], [(''Error setting rate limit'', Thrown ''disk full'')])))"
proof -
  let ?db = "table_adapter\<lparr>create := \<lambda>e rows. (Inl (Thrown ''disk full''), rows)\<rparr>"
  let ?v = "\<lparr>key = caller_key, count = 1, lastRequest = 0\<rparr>"
  have a: "findMany ?db caller_key [] = (Inr [], [])"
    by (simp add: table_adapter_def)
  have b: "create ?db ?v [] = (Inl (Thrown ''disk full''), [])"
    by simp
  have c: "(if False then updateMany ?db caller_key (count ?v) (lastRequest ?v) (fst ([], []))
            else create ?db \<lparr>key = caller_key, count = count ?v, lastRequest = lastRequest ?v\<rparr>
                   (fst ([], []))) = (Inl (Thrown ''disk full''), [])"
    by simp
  from database_writes_fail_open [of ?db caller_key ?v False 0 "([], [])" "Thrown ''disk full''" "[]"]
    c
  have "storage_set (createDatabaseStorage ?db) caller_key ?v False 0 ([], []) =
          (Inr (), ([], [(''Error setting rate limit'', Thrown ''disk full'')]))"
    by simp
  moreover have "checkRateLimit ip_plugin (createDatabaseStorage ?db) caller (instant 0)
       (Map.empty, ([], [])) =
     (Inr \<lparr>success = True, limit = 2, remaining = 1, retryAfter = None, resetAt = Some 10000,
           message = None\<rparr>,
      (Map.empty, ([], [(''Error setting rate limit'', Thrown ''disk full'')])))"
    by (simp add: example_defs engine_defs createDatabaseStorage_def database_get_def
        database_set_def table_adapter_def)
  ultimately show ?thesis using a b by simp
qed

text \<open>
  The claim as the specification words it fails for reads: with a database that cannot be
  reached, \<open>get\<close> returns the adapter's error instead of "absent", and the handler returns
  that error instead of admitting the request.
\<close>

theorem database_read_failure_counterexample:
  "findMany unreachable_adapter caller_key () = (Inl (Thrown ''connection refused''), ())
   \<and> storage_get (createDatabaseStorage unreachable_adapter) caller_key 0 ((), []) =
       (Inl (Thrown ''connection refused''), ((), []))
   \<and> storage_get (createDatabaseStorage unreachable_adapter) caller_key 0 ((), []) \<noteq>
       (Inr None, ((), []))
   \<and> checkRateLimit ip_plugin (createDatabaseStorage unreachable_adapter) caller (instant 0)
       (Map.empty, ((), [])) =
       (Inl (Thrown ''connection refused''), (Map.empty, ((), [])))"
  by (simp add: example_defs engine_defs createDatabaseStorage_def database_get_def
      unreachable_adapter_def)

section \<open>Requests inside one window\<close>

subsection \<open>The cache does not change what the resolver finds\<close>

lemma cache_sound_empty: "cache_sound Map.empty"
  by (simp add: cache_sound_def)

lemma matchPath_sound:
  assumes "cache_sound cache"
  shows "fst (matchPath p path cache) = fst (matchPath p path Map.empty)"
    and "cache_sound (snd (matchPath p path cache))"
  using assms by (auto simp: matchPath_def cache_sound_def Let_def split: option.splits)

lemma find_pattern_sound:
  assumes "cache_sound cache"
  shows "fst (find_pattern path ps cache) = fst (find_pattern path ps Map.empty)
       \<and> cache_sound (snd (find_pattern path ps cache))"
  using assms
proof (induction ps arbitrary: cache)
  case Nil
  then show ?case by simp
next
  case (Cons p ps)
  obtain b c where m: "matchPath p path cache = (b, c)" by (cases "matchPath p path cache")
  obtain b' c' where m': "matchPath p path Map.empty = (b', c')" by (cases "matchPath p path Map.empty")
  from matchPath_sound [OF Cons.prems, of p path] m m' have bb: "b' = b" and sc: "cache_sound c"
    by simp_all
  from matchPath_sound(2) [OF cache_sound_empty, of p path] m' have sc': "cache_sound c'"
    by simp
  show ?case
  proof (cases b)
    case True
    with m m' bb sc show ?thesis by simp
  next
    case False
    with m m' bb Cons.IH [OF sc] Cons.IH [OF sc'] show ?thesis by simp
  qed
qed

lemma findMatchingRule_sound:
  assumes "cache_sound cache"
  shows "fst (findMatchingRule path rules cache) = resolveRule path rules
       \<and> cache_sound (snd (findMatchingRule path rules cache))"
proof (cases rules)
  case None
  with assms show ?thesis by (simp add: findMatchingRule_def resolveRule_def)
next
  case (Some rs)
  obtain a c where f: "find_pattern path (map fst rs) cache = (a, c)"
    by (cases "find_pattern path (map fst rs) cache")
  obtain a' c' where f': "find_pattern path (map fst rs) Map.empty = (a', c')"
    by (cases "find_pattern path (map fst rs) Map.empty")
  from find_pattern_sound [OF assms, of path "map fst rs"] f f' have "a' = a" "cache_sound c"
    by simp_all
  with Some f f' show ?thesis
    by (cases a) (simp_all add: findMatchingRule_def resolveRule_def)
qed

text \<open>One counted request on any store, with a sound cache.\<close>

lemma checkRateLimit_resolved:
  assumes "cache_sound cache"
    and "resolveRule (body_path ctx) (customRules pl) = rule"
    and "rule \<noteq> Some Disabled"
    and "resolveIdentifier ctx (detection pl) (body_path ctx) = Some i"
  shows "\<exists>cache'. cache_sound cache'
           \<and> checkRateLimit pl storage ctx clk (cache, s) =
               (fst (countRequest (currentMax pl rule) (currentWindow pl rule) storage i clk s),
                (cache', snd (countRequest (currentMax pl rule) (currentWindow pl rule) storage i clk s)))"
proof -
  obtain r c where f: "findMatchingRule (body_path ctx) (customRules pl) cache = (r, c)"
    by (cases "findMatchingRule (body_path ctx) (customRules pl) cache")
  with findMatchingRule_sound [OF assms(1), of "body_path ctx" "customRules pl"] assms(2)
  have "r = rule" "cache_sound c" by simp_all
  with f checkRateLimit_counted [of ctx pl cache rule c i storage clk s] assms(3,4)
  show ?thesis by auto
qed

subsection \<open>A codec that round-trips\<close>

lemma dec_int_enc_int: "dec_int (enc_int n @ CHR '','' # r) = Some (n, r)"
proof -
  have d: "dropWhile (\<lambda>x. x = CHR ''1'') (replicate k CHR ''1'' @ CHR '','' # r) = CHR '','' # r"
    for k by (induction k) simp_all
  have t: "takeWhile (\<lambda>x. x = CHR ''1'') (replicate k CHR ''1'' @ CHR '','' # r) = replicate k CHR ''1''"
    for k by (induction k) simp_all
  show ?thesis
    by (simp add: dec_int_def enc_int_def d t)
qed

lemma unary_codec_round_trip:
  "json_parse unary_codec (json_stringify unary_codec e) = Some e
   \<and> json_stringify unary_codec e \<noteq> []"
  by (simp add: unary_codec_def dec_int_enc_int)

subsection \<open>Requests inside one window, for any store\<close>

lemma countRequest_live:
  assumes "storage_get S (''rl:'' @ i) (atGet clk) s = (Inr (Some d), s1)"
    and "atNow clk < lastRequest d + w * 1000"
    and "atShouldRateLimit clk < lastRequest d + w * 1000"
  shows "countRequest mx w S i clk s =
     (if count d \<ge> mx then
        (Inr \<lparr>success = False, limit = mx, remaining = 0,
              retryAfter = Some (getRetryAfter (lastRequest d) w (atGetRetryAfter clk)),
              resetAt = Some (lastRequest d + w * 1000),
              message = Some RATE_LIMITED_message\<rparr>, s1)
      else
        (case storage_set S (''rl:'' @ i) (d\<lparr>count := count d + 1\<rparr>) True (atSet clk) s1 of
           (Inl e, s2) \<Rightarrow> (Inl e, s2)
         | (Inr u, s2) \<Rightarrow>
             (Inr \<lparr>success = True, limit = mx, remaining = mx - (count d + 1),
                   retryAfter = None, resetAt = Some (lastRequest d + w * 1000),
                   message = None\<rparr>, s2)))"
  using assms(2,3)
  by (simp add: countRequest_found [OF assms(1)] shouldRateLimit_def Let_def split: prod.splits sum.splits)

lemma finds_entryE:
  assumes "finds_entry (fst (storage_get S k t s))"
  obtains d s1 where "storage_get S k t s = (Inr (Some d), s1)"
  using assms
  by (cases "storage_get S k t s") (auto simp: finds_entry_def split: sum.splits option.splits)

text \<open>
  The requests that are counted into a window opened at \<open>tw\<close>, for a store that hands out
  what it holds (\<open>holds\<close>) and takes the incremented entry: when the entry holds the count
  \<open>c\<close>, the \<open>k\<close>-th of them is admitted as long as \<open>c + k\<close> is below the limit, and all of
  them read entries whose window start is \<open>tw\<close>.
\<close>

lemma serve_live:
  fixes S :: "'s RateLimitStorage" and holds :: "'s \<Rightarrow> RateLimitEntry \<Rightarrow> bool"
  assumes kp: "keeps S (''rl:'' @ i) holds"
    and "cache_sound cache"
    and "resolveRule (body_path ctx) (customRules pl) = rule"
    and "rule \<noteq> Some Disabled"
    and "resolveIdentifier ctx (detection pl) (body_path ctx) = Some i"
    and "holds s d" and "lastRequest d = tw" and "count d = c"
    and "list_all finds_entry (reads pl S ctx (''rl:'' @ i) clks (cache, s))"
    and "list_all (\<lambda>clk. atNow clk < tw + currentWindow pl rule * 1000
                       \<and> atShouldRateLimit clk < tw + currentWindow pl rule * 1000) clks"
    and "k < length clks"
  shows "serve pl S (by_caller ctx clks) (cache, s) ! k =
     Inr (if c + int k < currentMax pl rule then
            \<lparr>success = True, limit = currentMax pl rule,
             remaining = currentMax pl rule - (c + int k + 1), retryAfter = None,
             resetAt = Some (tw + currentWindow pl rule * 1000), message = None\<rparr>
          else
            \<lparr>success = False, limit = currentMax pl rule, remaining = 0,
             retryAfter = Some (getRetryAfter tw (currentWindow pl rule) (atGetRetryAfter (clks ! k))),
             resetAt = Some (tw + currentWindow pl rule * 1000),
             message = Some RATE_LIMITED_message\<rparr>)
   \<and> (\<exists>e. reads pl S ctx (''rl:'' @ i) clks (cache, s) ! k = Inr (Some e) \<and> lastRequest e = tw)"
  using assms(2-)
proof (induction clks arbitrary: cache s d c k)
  case Nil
  then show ?case by simp
next
  case (Cons clk clks)
  let ?N = "currentMax pl rule" and ?W = "currentWindow pl rule"
  let ?key = "''rl:'' @ i"
  from Cons.prems(8) have found: "finds_entry (fst (storage_get S ?key (atGet clk) s))"
    and rest_found: "list_all finds_entry
        (reads pl S ctx ?key clks (snd (checkRateLimit pl S ctx clk (cache, s))))"
    by simp_all
  from Cons.prems(9) have t: "atNow clk < tw + ?W * 1000" "atShouldRateLimit clk < tw + ?W * 1000"
    and rest_t: "list_all (\<lambda>clk. atNow clk < tw + ?W * 1000
                       \<and> atShouldRateLimit clk < tw + ?W * 1000) clks"
    by simp_all
  from found obtain e s1 where g0: "storage_get S ?key (atGet clk) s = (Inr (Some e), s1)"
    by (rule finds_entryE)
  from kp Cons.prems(5) g0 have e: "e = d" and h1: "holds s1 d"
    unfolding keeps_def by blast+
  from g0 e have g: "storage_get S ?key (atGet clk) s = (Inr (Some d), s1)" by simp
  have rd: "reads pl S ctx ?key (clk # clks) (cache, s) ! 0 = Inr (Some d)"
    using g by simp
  from checkRateLimit_resolved [OF Cons.prems(1-4), of S clk s] obtain cache'
    where sc: "cache_sound cache'"
      and step: "checkRateLimit pl S ctx clk (cache, s) =
                   (fst (countRequest ?N ?W S i clk s), (cache', snd (countRequest ?N ?W S i clk s)))"
    by blast
  from t Cons.prems(6) have live: "atNow clk < lastRequest d + ?W * 1000"
    "atShouldRateLimit clk < lastRequest d + ?W * 1000"
    by simp_all
  note cr = countRequest_live [OF g live, where mx = ?N]
  show ?case
  proof (cases "c < ?N")
    case True
    let ?d' = "d\<lparr>count := count d + 1\<rparr>"
    from kp h1 obtain s2
      where w: "storage_set S ?key ?d' True (atSet clk) s1 = (Inr (), s2)" and h2: "holds s2 ?d'"
      unfolding keeps_def by blast
    from True Cons.prems(6,7) cr w
    have now: "countRequest ?N ?W S i clk s =
        (Inr \<lparr>success = True, limit = ?N, remaining = ?N - (c + 1), retryAfter = None,
              resetAt = Some (tw + ?W * 1000), message = None\<rparr>, s2)"
      by simp
    show ?thesis
    proof (cases k)
      case 0
      with True step now rd Cons.prems(6) show ?thesis by (simp add: by_caller_def)
    next
      case (Suc j)
      have l: "lastRequest ?d' = tw" using Cons.prems(6) by simp
      have c': "count ?d' = c + 1" using Cons.prems(7) by simp
      have j: "j < length clks" using Suc Cons.prems(10) by simp
      from rest_found step now
      have rf: "list_all finds_entry (reads pl S ctx ?key clks (cache', s2))" by simp
      note ih = Cons.IH [OF sc Cons.prems(2-4) h2 l c' rf rest_t j]
      have "serve pl S (by_caller ctx (clk # clks)) (cache, s) ! k =
            serve pl S (by_caller ctx clks) (cache', s2) ! j"
        using step now Suc by (simp add: by_caller_def)
      moreover have "reads pl S ctx ?key (clk # clks) (cache, s) ! k =
            reads pl S ctx ?key clks (cache', s2) ! j"
        using step now Suc by simp
      moreover have "c + 1 + int j = c + int k" using Suc by simp
      moreover have "(clk # clks) ! k = clks ! j" using Suc by simp
      ultimately show ?thesis using ih by simp
    qed
  next
    case False
    from False Cons.prems(6,7) cr
    have now: "countRequest ?N ?W S i clk s =
        (Inr \<lparr>success = False, limit = ?N, remaining = 0,
              retryAfter = Some (getRetryAfter tw ?W (atGetRetryAfter clk)),
              resetAt = Some (tw + ?W * 1000), message = Some RATE_LIMITED_message\<rparr>, s1)"
      by simp
    show ?thesis
    proof (cases k)
      case 0
      with False step now rd Cons.prems(6) show ?thesis by (simp add: by_caller_def)
    next
      case (Suc j)
      have j: "j < length clks" using Suc Cons.prems(10) by simp
      from rest_found step now
      have rf: "list_all finds_entry (reads pl S ctx ?key clks (cache', s1))" by simp
      note ih = Cons.IH [OF sc Cons.prems(2-4) h1 Cons.prems(6,7) rf rest_t j]
      have "serve pl S (by_caller ctx (clk # clks)) (cache, s) ! k =
            serve pl S (by_caller ctx clks) (cache', s1) ! j"
        using step now Suc by (simp add: by_caller_def)
      moreover have "reads pl S ctx ?key (clk # clks) (cache, s) ! k =
            reads pl S ctx ?key clks (cache', s1) ! j"
        using step now Suc by simp
      moreover have "(clk # clks) ! k = clks ! j" using Suc by simp
      ultimately show ?thesis using ih False by simp
    qed
  qed
qed

text \<open>The request that opens a window, and then the requests counted into it.\<close>

lemma countRequest_opens:
  fixes S :: "'s RateLimitStorage" and holds :: "'s \<Rightarrow> RateLimitEntry \<Rightarrow> bool"
  assumes kp: "keeps S (''rl:'' @ i) holds"
    and "opens_window mx w clk (fst (storage_get S (''rl:'' @ i) (atGet clk) s))"
  shows "\<exists>v s2. holds s2 v \<and> count v = 1 \<and> lastRequest v = atNow clk
           \<and> countRequest mx w S i clk s =
               (Inr \<lparr>success = True, limit = mx, remaining = mx - 1, retryAfter = None,
                     resetAt = Some (atNow clk + w * 1000), message = None\<rparr>, s2)"
proof -
  obtain found s1 where g: "storage_get S (''rl:'' @ i) (atGet clk) s = (found, s1)"
    by (cases "storage_get S (''rl:'' @ i) (atGet clk) s")
  show ?thesis
  proof (cases found)
    case (Inl e)
    with assms(2) g show ?thesis by (simp add: opens_window_def)
  next
    case (Inr opt)
    show ?thesis
    proof (cases opt)
      case None
      let ?v = "\<lparr>key = ''rl:'' @ i, count = 1, lastRequest = atNow clk\<rparr>"
      from g Inr None have g': "storage_get S (''rl:'' @ i) (atGet clk) s = (Inr None, s1)" by simp
      have "key ?v = ''rl:'' @ i" by simp
      with kp g' obtain s2
        where w: "storage_set S (''rl:'' @ i) ?v False (atSet clk) s1 = (Inr (), s2)"
          and h: "holds s2 ?v"
        unfolding keeps_def by blast
      from h w show ?thesis
        by - (rule exI [of _ ?v], rule exI [of _ s2], simp add: countRequest_absent [OF g'])
    next
      case (Some e)
      let ?v = "e\<lparr>count := 1, lastRequest := atNow clk\<rparr>"
      from g Inr Some have g': "storage_get S (''rl:'' @ i) (atGet clk) s = (Inr (Some e), s1)"
        by simp
      from assms(2) g' have el: "\<not> shouldRateLimit mx w e (atShouldRateLimit clk)"
        "atNow clk - lastRequest e > w * 1000"
        by (simp_all add: opens_window_def)
      from kp g' obtain s2
        where w: "storage_set S (''rl:'' @ i) ?v True (atSet clk) s1 = (Inr (), s2)"
          and h: "holds s2 ?v"
        unfolding keeps_def by blast
      from h w el show ?thesis
        by - (rule exI [of _ ?v], rule exI [of _ s2], simp add: countRequest_found [OF g'])
    qed
  qed
qed

lemma serve_one_window:
  fixes S :: "'s RateLimitStorage" and holds :: "'s \<Rightarrow> RateLimitEntry \<Rightarrow> bool"
  assumes kp: "keeps S (''rl:'' @ i) holds"
    and "cache_sound cache"
    and "resolveRule (body_path ctx) (customRules pl) = rule"
    and "rule \<noteq> Some Disabled"
    and "resolveIdentifier ctx (detection pl) (body_path ctx) = Some i"
    and "one_window pl S ctx i clk0 clks (cache, s)"
  shows "k < length (clk0 # clks) \<Longrightarrow>
     serve pl S (by_caller ctx (clk0 # clks)) (cache, s) ! k =
     Inr (if k = 0 \<or> int k < currentMax pl rule then
            \<lparr>success = True, limit = currentMax pl rule,
             remaining = currentMax pl rule - (int k + 1), retryAfter = None,
             resetAt = Some (atNow clk0 + currentWindow pl rule * 1000), message = None\<rparr>
          else
            \<lparr>success = False, limit = currentMax pl rule, remaining = 0,
             retryAfter = Some (getRetryAfter (atNow clk0) (currentWindow pl rule)
                                  (atGetRetryAfter ((clk0 # clks) ! k))),
             resetAt = Some (atNow clk0 + currentWindow pl rule * 1000),
             message = Some RATE_LIMITED_message\<rparr>)"
    and "j < length clks \<Longrightarrow>
     \<exists>e. reads pl S ctx (''rl:'' @ i) clks (snd (checkRateLimit pl S ctx clk0 (cache, s))) ! j =
           Inr (Some e) \<and> lastRequest e = atNow clk0"
proof -
  let ?N = "currentMax pl rule" and ?W = "currentWindow pl rule"
  let ?key = "''rl:'' @ i"
  from assms(6) assms(3)
  have opens: "opens_window ?N ?W clk0 (fst (storage_get S ?key (atGet clk0) s))"
    and found: "list_all finds_entry
        (reads pl S ctx ?key clks (snd (checkRateLimit pl S ctx clk0 (cache, s))))"
    and times: "list_all (\<lambda>clk. atNow clk < atNow clk0 + ?W * 1000
                       \<and> atShouldRateLimit clk < atNow clk0 + ?W * 1000) clks"
    by (simp_all add: one_window_def Let_def)
  from checkRateLimit_resolved [OF assms(2-5), of S clk0 s] obtain cache'
    where sc: "cache_sound cache'"
      and step: "checkRateLimit pl S ctx clk0 (cache, s) =
                   (fst (countRequest ?N ?W S i clk0 s), (cache', snd (countRequest ?N ?W S i clk0 s)))"
    by blast
  from countRequest_opens [OF kp opens] obtain v s2
    where h: "holds s2 v" and c: "count v = 1" and l: "lastRequest v = atNow clk0"
      and now: "countRequest ?N ?W S i clk0 s =
               (Inr \<lparr>success = True, limit = ?N, remaining = ?N - 1, retryAfter = None,
                     resetAt = Some (atNow clk0 + ?W * 1000), message = None\<rparr>, s2)"
    by blast
  from found step now have rf: "list_all finds_entry (reads pl S ctx ?key clks (cache', s2))"
    by simp
  note live = serve_live [OF kp sc assms(3-5) h l c rf times]
  show "\<exists>e. reads pl S ctx ?key clks (snd (checkRateLimit pl S ctx clk0 (cache, s))) ! j =
           Inr (Some e) \<and> lastRequest e = atNow clk0" if "j < length clks"
    using live [OF that] step now by simp
  show "serve pl S (by_caller ctx (clk0 # clks)) (cache, s) ! k =
     Inr (if k = 0 \<or> int k < ?N then
            \<lparr>success = True, limit = ?N, remaining = ?N - (int k + 1), retryAfter = None,
             resetAt = Some (atNow clk0 + ?W * 1000), message = None\<rparr>
          else
            \<lparr>success = False, limit = ?N, remaining = 0,
             retryAfter = Some (getRetryAfter (atNow clk0) ?W (atGetRetryAfter ((clk0 # clks) ! k))),
             resetAt = Some (atNow clk0 + ?W * 1000),
             message = Some RATE_LIMITED_message\<rparr>)" if "k < length (clk0 # clks)"
  proof (cases k)
    case 0
    with step now show ?thesis by (simp add: by_caller_def)
  next
    case (Suc j)
    have j: "j < length clks" using Suc that by simp
    have "serve pl S (by_caller ctx (clk0 # clks)) (cache, s) ! k =
          serve pl S (by_caller ctx clks) (cache', s2) ! j"
      using step now Suc by (simp add: by_caller_def)
    moreover have "1 + int j = int k" using Suc by simp
    moreover have "(clk0 # clks) ! k = clks ! j" using Suc by simp
    ultimately show ?thesis using live [OF j, THEN conjunct1] by simp
  qed
qed

subsection \<open>The three backends keep their entries\<close>

lemma memory_keeps: "keeps (createMemoryStorage dw) k (memory_holds k)"
  unfolding keeps_def
proof (intro conjI allI impI)
  fix s :: memory and d t e s1
  assume "memory_holds k s d \<and> storage_get (createMemoryStorage dw) k t s = (Inr (Some e), s1)"
  then show "e = d" and "memory_holds k s1 d"
    by (auto simp: memory_holds_def memory_defs split: option.splits if_splits)
qed (auto simp: memory_holds_def memory_defs split: option.splits if_splits)

lemma entry_of_row_of: "entry_of (row_of v) = v"
  by (simp add: entry_of_def row_of_def)

lemma filter_update:
  "filter (\<lambda>r. row_key r = k')
     (map (\<lambda>r. if row_key r = k then r\<lparr>row_count := c, row_lastRequest := l\<rparr> else r) rows) =
   map (\<lambda>r. if row_key r = k then r\<lparr>row_count := c, row_lastRequest := l\<rparr> else r)
     (filter (\<lambda>r. row_key r = k') rows)"
  by (induction rows) auto

lemma table_get:
  "storage_get (createDatabaseStorage table_adapter) k t st =
     (Inr (case filter (\<lambda>r. row_key r = k) (fst st) of [] \<Rightarrow> None | row # rest \<Rightarrow> Some (entry_of row)),
      st)"
  by (simp add: database_defs entry_of_def split: list.splits)

lemma table_update:
  assumes "table_holds k st d" and "key v = key d"
  shows "\<exists>st'. storage_set (createDatabaseStorage table_adapter) k v True t st = (Inr (), st')
           \<and> table_holds k st' v"
proof -
  from assms(1) obtain row rest where f: "filter (\<lambda>r. row_key r = k) (fst st) = row # rest"
    and d: "entry_of row = d"
    by (auto simp: table_holds_def split: list.splits)
  from f have "row \<in> set (filter (\<lambda>r. row_key r = k) (fst st))" by simp
  then have rk: "row_key row = k" by simp
  with d assms(2) have kv: "key v = k" by (auto simp: entry_of_def)
  let ?upd = "\<lambda>r. if row_key r = k
                 then r\<lparr>row_count := count v, row_lastRequest := Number (lastRequest v)\<rparr> else r"
  have "filter (\<lambda>r. row_key r = k) (map ?upd (fst st)) = map ?upd (row # rest)"
    unfolding filter_update f ..
  with rk kv show ?thesis
    by (simp add: database_defs table_holds_def entry_of_def)
qed

lemma table_keeps: "keeps (createDatabaseStorage table_adapter) k (table_holds k)"
  unfolding keeps_def
proof (intro conjI allI impI)
  fix s :: "db_row list database" and d t e s1
  assume a: "table_holds k s d \<and> storage_get (createDatabaseStorage table_adapter) k t s = (Inr (Some e), s1)"
  then show "e = d" and "table_holds k s1 d"
    by (auto simp: table_get table_holds_def split: list.splits)
next
  fix s :: "db_row list database" and d t
  assume "table_holds k s d"
  then show "\<exists>s2. storage_set (createDatabaseStorage table_adapter) k (d\<lparr>count := count d + 1\<rparr>) True t s =
                (Inr (), s2) \<and> table_holds k s2 (d\<lparr>count := count d + 1\<rparr>)"
    by (rule table_update) simp
next
  fix s :: "db_row list database" and t s1 and v :: RateLimitEntry and t'
  assume a: "storage_get (createDatabaseStorage table_adapter) k t s = (Inr None, s1) \<and> key v = k"
  then have s1: "s1 = s" and none: "filter (\<lambda>r. row_key r = k) (fst s) = []"
    by (auto simp: table_get split: list.splits)
  from none have "k \<notin> row_key ` set (fst s)" by (auto simp: filter_empty_conv)
  with a none s1 show "\<exists>s2. storage_set (createDatabaseStorage table_adapter) k v False t' s1 = (Inr (), s2)
                \<and> table_holds k s2 v"
    by (auto simp: database_defs table_holds_def entry_of_def)
next
  fix s :: "db_row list database" and t e s1 n t'
  assume a: "storage_get (createDatabaseStorage table_adapter) k t s = (Inr (Some e), s1)"
  then have "s1 = s" and "table_holds k s e"
    by (auto simp: table_get table_holds_def split: list.splits)
  then show "\<exists>s2. storage_set (createDatabaseStorage table_adapter) k (e\<lparr>count := 1, lastRequest := n\<rparr>)
                  True t' s1 = (Inr (), s2)
                \<and> table_holds k s2 (e\<lparr>count := 1, lastRequest := n\<rparr>)"
    using table_update [of k s e "e\<lparr>count := 1, lastRequest := n\<rparr>" t'] by simp
qed

lemma cache_keeps:
  assumes "\<forall>e. json_parse json (json_stringify json e) = Some e \<and> json_stringify json e \<noteq> []"
  shows "keeps (createSecondaryStorageWrapper json (Some test_secondaryStorage) dw) k (cache_holds json k)"
  unfolding keeps_def
proof (intro conjI allI impI)
  fix s :: ttl_store and d t e s1
  assume "cache_holds json k s d
        \<and> storage_get (createSecondaryStorageWrapper json (Some test_secondaryStorage) dw) k t s =
            (Inr (Some e), s1)"
  with assms show "e = d" and "cache_holds json k s1 d"
    by (auto simp: cache_holds_def secondary_defs split: option.splits if_splits)
qed (auto simp: cache_holds_def secondary_defs split: option.splits if_splits)

text \<open>
  When a request finds an entry: in the memory store, while \<open>Date.now()\<close> has not reached
  \<open>expiresAt\<close>, which every write sets to its own \<open>Date.now()\<close> plus the default window; in
  the table, whenever there is a row for the key.
\<close>

lemma memory_finds_entry:
  "finds_entry (fst (storage_get (createMemoryStorage dw) k t m)) \<longleftrightarrow>
     (case m k of None \<Rightarrow> False | Some me \<Rightarrow> t < expiresAt me)"
  by (simp add: finds_entry_def memory_defs split: option.splits)

lemma memory_set_expiry:
  "storage_set (createMemoryStorage dw) k v u t m =
     (Inr (), m(k \<mapsto> \<lparr>data = v, expiresAt = t + dw * 1000\<rparr>))"
  by (simp add: memory_defs)

lemma table_finds_entry:
  "finds_entry (fst (storage_get (createDatabaseStorage table_adapter) k t st)) \<longleftrightarrow>
     filter (\<lambda>r. row_key r = k) (fst st) \<noteq> []"
  by (simp add: finds_entry_def table_get split: list.splits)

subsection \<open>Consumption inside one window\<close>

lemmas window_defs = one_window_def opens_window_def finds_entry_def by_caller_def resolveRule_def

lemmas readme_defs = readme_plugin_def sign_up_def matchPath_def

text \<open>
  C1, as the code has it. Take a rule with \<open>maxRequests = N \<ge> 1\<close> and the requests of one
  caller on one path, served one after the other by the memory backend, by the durable
  backend over a table, or by the secondary-storage backend over a cache with times to
  live. The first request opens a window at its \<open>now\<close>. Every later one finds an entry in
  the store (the memory and secondary-storage backends drop an entry one default window
  after the last write, whatever the window of the rule is) and reads the clock, for \<open>now\<close>
  and in \<open>shouldRateLimit\<close>, before the window ends. Then the \<open>k\<close>-th request, for
  \<open>k = 1..N\<close>, is admitted with \<open>remaining = N - k\<close>, and every later one, the \<open>(N+1)\<close>-th
  first, is rejected with \<open>remaining = 0\<close>: a stored count equal to the limit rejects.
  (Positions are counted from 0 in the statement.)
\<close>

theorem monotonic_consumption:
  assumes "cache_sound cache"
    and "resolveRule (body_path ctx) (customRules pl) = rule"
    and "rule \<noteq> Some Disabled"
    and "resolveIdentifier ctx (detection pl) (body_path ctx) = Some i"
    and "N = currentMax pl rule" and "W = currentWindow pl rule" and "1 \<le> N"
    and "k < length (clk # clks)"
    and "answer =
           Inr (if int k < N then
                  \<lparr>success = True, limit = N, remaining = N - (int k + 1), retryAfter = None,
                   resetAt = Some (atNow clk + W * 1000), message = None\<rparr>
                else
                  \<lparr>success = False, limit = N, remaining = 0,
                   retryAfter = Some (getRetryAfter (atNow clk) W (atGetRetryAfter ((clk # clks) ! k))),
                   resetAt = Some (atNow clk + W * 1000), message = Some RATE_LIMITED_message\<rparr>)"
  shows "(one_window pl (createMemoryStorage (defaultWindow pl)) ctx i clk clks (cache, m) \<longrightarrow>
            serve pl (createMemoryStorage (defaultWindow pl)) (by_caller ctx (clk # clks)) (cache, m) ! k =
              answer)
       \<and> (one_window pl (createDatabaseStorage table_adapter) ctx i clk clks (cache, (rows, lg)) \<longrightarrow>
            serve pl (createDatabaseStorage table_adapter) (by_caller ctx (clk # clks))
              (cache, (rows, lg)) ! k = answer)
       \<and> ((\<forall>e. json_parse json (json_stringify json e) = Some e \<and> json_stringify json e \<noteq> [])
          \<and> one_window pl
               (createSecondaryStorageWrapper json (Some test_secondaryStorage) (defaultWindow pl))
               ctx i clk clks (cache, c) \<longrightarrow>
            serve pl (createSecondaryStorageWrapper json (Some test_secondaryStorage) (defaultWindow pl))
              (by_caller ctx (clk # clks)) (cache, c) ! k = answer)"
proof (intro conjI impI)
  have N: "1 \<le> currentMax pl rule" using assms(5,7) by simp
  have "answer =
           Inr (if k = 0 \<or> int k < currentMax pl rule then
                  \<lparr>success = True, limit = currentMax pl rule,
                   remaining = currentMax pl rule - (int k + 1), retryAfter = None,
                   resetAt = Some (atNow clk + currentWindow pl rule * 1000), message = None\<rparr>
                else
                  \<lparr>success = False, limit = currentMax pl rule, remaining = 0,
                   retryAfter = Some (getRetryAfter (atNow clk) (currentWindow pl rule)
                                        (atGetRetryAfter ((clk # clks) ! k))),
                   resetAt = Some (atNow clk + currentWindow pl rule * 1000),
                   message = Some RATE_LIMITED_message\<rparr>)"
    using assms(5-7,9) by auto
  note run = serve_one_window(1) [OF _ assms(1-4) _ assms(8), folded this]
  show "serve pl (createMemoryStorage (defaultWindow pl)) (by_caller ctx (clk # clks)) (cache, m) ! k =
          answer"
    if "one_window pl (createMemoryStorage (defaultWindow pl)) ctx i clk clks (cache, m)"
    by (rule run [OF memory_keeps that])
  show "serve pl (createDatabaseStorage table_adapter) (by_caller ctx (clk # clks))
          (cache, (rows, lg)) ! k = answer"
    if "one_window pl (createDatabaseStorage table_adapter) ctx i clk clks (cache, (rows, lg))"
    by (rule run [OF table_keeps that])
  show "serve pl (createSecondaryStorageWrapper json (Some test_secondaryStorage) (defaultWindow pl))
          (by_caller ctx (clk # clks)) (cache, c) ! k = answer"
    if "(\<forall>e. json_parse json (json_stringify json e) = Some e \<and> json_stringify json e \<noteq> [])
        \<and> one_window pl
             (createSecondaryStorageWrapper json (Some test_secondaryStorage) (defaultWindow pl))
             ctx i clk clks (cache, c)"
    by (rule run [OF cache_keeps]) (simp_all add: that)
qed

lemma sign_up_rule:
  "resolveRule (body_path sign_up) (customRules readme_plugin) = Some (Rule \<lparr>window = 3600, max' = 3\<rparr>)"
  by (simp add: resolveRule_def findMatchingRule_def readme_defs rateLimiter_def)

lemma sign_up_identifier:
  "resolveIdentifier sign_up (detection readme_plugin) (body_path sign_up) =
     Some ''10.0.0.80|/api/auth/sign-up''"
  by (simp add: resolveIdentifier_def ip_identifier_def readme_defs rateLimiter_def)

lemma sign_up_window_memory:
  "one_window readme_plugin (createMemoryStorage 60) sign_up ''10.0.0.80|/api/auth/sign-up''
     (instant 0) [instant 50000, instant 100000, instant 110000] (Map.empty, Map.empty)"
  by (simp add: window_defs readme_defs rateLimiter_def engine_defs memory_defs)

lemma sign_up_window_database:
  "one_window readme_plugin (createDatabaseStorage table_adapter) sign_up
     ''10.0.0.80|/api/auth/sign-up''
     (instant 0) [instant 50000, instant 100000, instant 110000] (Map.empty, ([], []))"
  by (simp add: window_defs readme_defs rateLimiter_def engine_defs database_defs)

lemma sign_up_window_secondary:
  "one_window readme_plugin (createSecondaryStorageWrapper unary_codec (Some test_secondaryStorage) 60)
     sign_up ''10.0.0.80|/api/auth/sign-up''
     (instant 0) [instant 50000, instant 100000, instant 110000] (Map.empty, Map.empty)"
  by (simp add: window_defs readme_defs rateLimiter_def engine_defs secondary_defs unary_codec_round_trip)

text \<open>
  Four requests for \<open>/api/auth/sign-up\<close> (three per hour) at 0, 50, 100 and 110 seconds: each
  comes less than the default window of one minute after the last admitted one, so the
  entry is still stored. The third is admitted with nothing remaining and the fourth is
  rejected, on the three backends.
\<close>

theorem monotonic_consumption_witness:
  "one_window readme_plugin (createMemoryStorage 60) sign_up ''10.0.0.80|/api/auth/sign-up''
     (instant 0) [instant 50000, instant 100000, instant 110000] (Map.empty, Map.empty)
   \<and> one_window readme_plugin (createDatabaseStorage table_adapter) sign_up
       ''10.0.0.80|/api/auth/sign-up''
       (instant 0) [instant 50000, instant 100000, instant 110000] (Map.empty, ([], []))
   \<and> one_window readme_plugin
       (createSecondaryStorageWrapper unary_codec (Some test_secondaryStorage) 60)
       sign_up ''10.0.0.80|/api/auth/sign-up''
       (instant 0) [instant 50000, instant 100000, instant 110000] (Map.empty, Map.empty)
   \<and> serve readme_plugin (createMemoryStorage 60)
       (by_caller sign_up [instant 0, instant 50000, instant 100000, instant 110000])
       (Map.empty, Map.empty) ! 2 =
     Inr \<lparr>success = True, limit = 3, remaining = 0, retryAfter = None, resetAt = Some 3600000,
          message = None\<rparr>
   \<and> serve readme_plugin (createMemoryStorage 60)
       (by_caller sign_up [instant 0, instant 50000, instant 100000, instant 110000])
       (Map.empty, Map.empty) ! 3 =
     Inr \<lparr>success = False, limit = 3, remaining = 0, retryAfter = Some 3490,
          resetAt = Some 3600000, message = Some RATE_LIMITED_message\<rparr>
   \<and> serve readme_plugin (createDatabaseStorage table_adapter)
       (by_caller sign_up [instant 0, instant 50000, instant 100000, instant 110000])
       (Map.empty, ([], [])) ! 3 =
     Inr \<lparr>success = False, limit = 3, remaining = 0, retryAfter = Some 3490,
          resetAt = Some 3600000, message = Some RATE_LIMITED_message\<rparr>
   \<and> serve readme_plugin (createSecondaryStorageWrapper unary_codec (Some test_secondaryStorage) 60)
       (by_caller sign_up [instant 0, instant 50000, instant 100000, instant 110000])
       (Map.empty, Map.empty) ! 3 =
     Inr \<lparr>success = False, limit = 3, remaining = 0, retryAfter = Some 3490,
          resetAt = Some 3600000, message = Some RATE_LIMITED_message\<rparr>"
proof -
  let ?clks = "[instant 50000, instant 100000, instant 110000]"
  have n: "3 = currentMax readme_plugin (Some (Rule \<lparr>window = 3600, max' = 3\<rparr>))"
    and w: "3600 = currentWindow readme_plugin (Some (Rule \<lparr>window = 3600, max' = 3\<rparr>))"
    by (simp_all add: currentMax_def currentWindow_def)
  have d: "defaultWindow readme_plugin = 60" by (simp add: readme_defs rateLimiter_def)
  have codec: "\<forall>e. json_parse unary_codec (json_stringify unary_codec e) = Some e
                 \<and> json_stringify unary_codec e \<noteq> []"
    using unary_codec_round_trip by blast
  note mc = monotonic_consumption [where clk = "instant 0" and clks = "?clks" and m = Map.empty
      and rows = "[]" and lg = "[]" and c = Map.empty and json = unary_codec,
      OF cache_sound_empty sign_up_rule _ sign_up_identifier n w, unfolded d]
  have third: "2 < length (instant 0 # ?clks)" and fourth: "3 < length (instant 0 # ?clks)"
    by simp_all
  from mc [OF _ _ third refl, THEN conjunct1] mc [OF _ _ fourth refl]
    sign_up_window_memory sign_up_window_database sign_up_window_secondary codec
  show ?thesis
    by (simp add: instant_def getRetryAfter_div)
qed

text \<open>
  The claim as the specification words it fails. Under the same rule a request at 62
  seconds is well inside the window of one hour that the request at 0 opened, but the
  memory backend dropped the entry after the default window of one minute: the request is
  admitted as the first of a new window, with \<open>remaining = 2\<close> again, not as the second of the
  live one. And a request inside a window whose limit is used up is admitted if the window
  ends between its reading of the clock for \<open>now\<close> and the reading in \<open>shouldRateLimit\<close>:
  with two requests per ten seconds counted since 0, \<open>now = 9999\<close> and a clock that has
  reached 10000 in \<open>shouldRateLimit\<close>, the third request is admitted and counted.
\<close>

theorem consumption_restarts_counterexample:
  "serve readme_plugin (createMemoryStorage 60) (at_instants sign_up [0, 62000])
     (Map.empty, Map.empty) =
     [Inr \<lparr>success = True, limit = 3, remaining = 2, retryAfter = None, resetAt = Some 3600000,
           message = None\<rparr>,
      Inr \<lparr>success = True, limit = 3, remaining = 2, retryAfter = None, resetAt = Some 3662000,
           message = None\<rparr>]
   \<and> (62000 :: int) < 0 + 3600 * 1000
   \<and> checkRateLimit ip_plugin (createMemoryStorage 10) caller
       \<lparr>atGet = 9999, atNow = 9999, atShouldRateLimit = 10000, atGetRetryAfter = 10000,
        atSet = 10000\<rparr> (Map.empty, used_up) =
     (Inr \<lparr>success = True, limit = 2, remaining = 0, retryAfter = None, resetAt = Some 10000,
           message = None\<rparr>,
      (Map.empty, used_up(caller_key \<mapsto>
         \<lparr>data = \<lparr>key = caller_key, count = 3, lastRequest = 0\<rparr>, expiresAt = 20000\<rparr>)))"
  by (simp add: at_instants_def readme_defs example_defs engine_defs memory_defs)

subsection \<open>The window does not slide\<close>









section \<open>The pattern matcher against the specification\<close>

subsection \<open>Splitting and joining\<close>

lemma js_split_from_nonempty: "js_split_from sep cur s \<noteq> []"
  by (induction sep cur s rule: js_split_from.induct) (subst js_split_from.simps, simp)

lemma js_join_Cons: "xs \<noteq> [] \<Longrightarrow> js_join sep (x # xs) = x @ sep @ js_join sep xs"
  by (cases xs) simp_all

lemma escape_syntax_append: "escape_syntax (a @ b) = escape_syntax a @ escape_syntax b"
  by (simp add: escape_syntax_def)

lemma escape_syntax_Nil: "escape_syntax [] = []"
  by (simp add: escape_syntax_def)

text \<open>Splitting a segment at \<open>*\<close> and joining the escaped pieces with \<open>[^/]*\<close>.\<close>

lemma split_star_Nil: "js_split_from ''*'' cur [] = [cur]"
  by (subst js_split_from.simps) simp

lemma split_star_Cons:
  "js_split_from ''*'' cur (c # s) =
     (if c = CHR ''*'' then cur # js_split_from ''*'' [] s
      else js_split_from ''*'' (cur @ [c]) s)"
  by (subst js_split_from.simps) (cases s; simp)

lemma segment_source:
  "js_join ''[^/]*'' (map escape_syntax (js_split_from ''*'' cur s)) =
     escape_syntax cur @
     concat (map (\<lambda>c. if c = CHR ''*'' then ''[^/]*'' else escape_syntax [c]) s)"
proof (induction s arbitrary: cur)
  case Nil
  then show ?case by (simp add: split_star_Nil)
next
  case (Cons c s)
  show ?case
  proof (cases "c = CHR ''*''")
    case True
    then show ?thesis
      using Cons.IH [of "[]"]
      by (simp add: split_star_Cons js_join_Cons js_split_from_nonempty escape_syntax_Nil)
  next
    case False
    then show ?thesis
      using Cons.IH [of "cur @ [c]"]
      by (simp add: split_star_Cons escape_syntax_append)
  qed
qed

text \<open>Splitting a pattern at \<open>**\<close>.\<close>

lemma split_stars_Nil: "js_split_from ''**'' cur [] = [cur]"
  by (subst js_split_from.simps) simp

lemma split_stars_single: "js_split_from ''**'' cur [c] = [cur @ [c]]"
  by (subst js_split_from.simps) (simp add: split_stars_Nil)

lemma split_stars_Cons:
  "js_split_from ''**'' cur (c # d # s) =
     (if c = CHR ''*'' \<and> d = CHR ''*'' then cur # js_split_from ''**'' [] s
      else js_split_from ''**'' (cur @ [c]) (d # s))"
  by (subst js_split_from.simps) auto

lemma regexStr_from:
  "js_join ''.*''
     (map (\<lambda>segment. js_join ''[^/]*'' (map escape_syntax (js_split ''*'' segment)))
        (js_split_from ''**'' cur s)) =
   concat (map (\<lambda>c. if c = CHR ''*'' then ''[^/]*'' else escape_syntax [c]) cur) @
   concat (map source_of (glob_tokens s))"
proof (induction s arbitrary: cur rule: glob_tokens.induct)
  case 1
  show ?case
    using segment_source [of "[]" cur]
    by (simp add: split_stars_Nil js_split_def escape_syntax_Nil)
next
  case (2 c)
  show ?case
    using segment_source [of "[]" "cur @ [c]"]
    by (simp add: split_stars_single js_split_def escape_syntax_Nil)
next
  case (3 c d s)
  show ?case
  proof (cases "c = CHR ''*'' \<and> d = CHR ''*''")
    case True
    then show ?thesis
      using "3.IH"(1) [of "[]"] segment_source [of "[]" cur]
      by (simp add: split_stars_Cons js_join_Cons js_split_from_nonempty js_split_def
          escape_syntax_Nil)
  next
    case False
    show ?thesis
    proof (cases "c = CHR ''*''")
      case True
      with False show ?thesis
        using "3.IH"(2) [of "cur @ [c]"] by (simp add: split_stars_Cons)
    next
      case c: False
      then show ?thesis
        using "3.IH"(3) [of "cur @ [c]"] by (simp add: split_stars_Cons)
    qed
  qed
qed

lemma regexStr_tokens: "regexStr pattern = concat (map source_of (glob_tokens pattern))"
  using regexStr_from [of "[]" pattern] by (simp add: regexStr_def js_split_def)

subsection \<open>Parsing what was built\<close>

lemma re_body_escaped: "re_body (escape_syntax [c] @ rest) = Lit c # re_body rest"
  by (auto simp: escape_syntax_def syntax_chars_def backslash_def)

lemma re_body_not_slash: "re_body (''[^/]*'' @ rest) = NotSlashStar # re_body rest"
  by (simp add: backslash_def)

lemma re_body_dot: "re_body (''.*'' @ rest) = DotStar # re_body rest"
  by (simp add: backslash_def)

lemma re_body_source: "re_body (source_of g @ rest) = atom_of g # re_body rest"
  by (cases g) (simp_all only: source_of.simps atom_of.simps re_body_escaped re_body_not_slash
      re_body_dot)

lemma re_body_tokens: "re_body (concat (map source_of gs) @ ''$'') = map atom_of gs"
  by (induction gs) (simp_all add: re_body_source)

text \<open>The matcher never builds a regular expression outside the modelled fragment.\<close>

lemma regexStr_supported:
  "RegExp (''^'' @ regexStr pattern @ ''$'') = map atom_of (glob_tokens pattern)
   \<and> Unsupported \<notin> set (RegExp (''^'' @ regexStr pattern @ ''$''))"
proof -
  have "RegExp (''^'' @ regexStr pattern @ ''$'') = map atom_of (glob_tokens pattern)"
    by (simp add: RegExp_def regexStr_tokens re_body_tokens)
  moreover have "Unsupported \<notin> set (map atom_of gs)" for gs
  proof (induction gs)
    case Nil
    show ?case by simp
  next
    case (Cons g gs)
    then show ?case by (cases g) simp_all
  qed
  ultimately show ?thesis by simp
qed

subsection \<open>Matching\<close>

lemma re_test_glob_match:
  assumes "\<forall>c \<in> set path. \<not> lineTerminator c"
  shows "re_test (map atom_of gs) path = glob_match gs path"
  using assms by (induction gs path rule: glob_match.induct) simp_all

lemma glob_tokens_literal: "CHR ''*'' \<notin> set p \<Longrightarrow> glob_tokens p = map Literal p"
  by (induction p rule: glob_tokens.induct) auto

lemma glob_match_literal: "glob_match (map Literal p) path = (p = path)"
proof (induction p arbitrary: path)
  case Nil
  show ?case by auto
next
  case (Cons c p)
  then show ?case by (cases path) auto
qed

subsection \<open>matchPath and the specification\<close>

lemma matchPath_literal:
  "CHR ''*'' \<notin> set pattern \<Longrightarrow> fst (matchPath pattern path cache) = (pattern = path)"
  by (simp add: matchPath_def)

lemma matchPath_empty: "fst (matchPath [] path cache) = (path = [])"
  by (auto simp: matchPath_def)

lemma matchPath_compiled:
  assumes "cache_sound cache" and "CHR ''*'' \<in> set pattern"
  shows "fst (matchPath pattern path cache) = re_test (map atom_of (glob_tokens pattern)) path"
proof (cases "cache pattern")
  case None
  with assms(2) show ?thesis
    using regexStr_supported [of pattern] by (simp add: matchPath_def Let_def)
next
  case (Some regex)
  with assms(1) have "regex = map atom_of (glob_tokens pattern)"
    using regexStr_supported [of pattern] by (simp add: cache_sound_def)
  with Some assms(2) show ?thesis by (simp add: matchPath_def)
qed

text \<open>
  On paths without a line terminator the matcher is the pattern language of the
  specification: a pattern without \<open>*\<close> matches exactly itself (the empty pattern only the
  empty path), \<open>*\<close> matches any run of characters other than \<open>/\<close>, \<open>**\<close> matches any run of
  characters, and every other character, the metacharacters of regular expressions
  included, matches itself.
\<close>

theorem matchPath_refines_spec:
  assumes "cache_sound cache" and "\<forall>c \<in> set path. \<not> lineTerminator c"
  shows "fst (matchPath pattern path cache) = spec_matches pattern path"
proof (cases "CHR ''*'' \<in> set pattern")
  case True
  with assms show ?thesis
    by (simp add: matchPath_compiled re_test_glob_match spec_matches_def)
next
  case False
  then show ?thesis
    by (simp add: matchPath_literal spec_matches_def glob_tokens_literal glob_match_literal)
qed

lemmas matcher_defs =
  matchPath_def RegExp_def regexStr_def js_split_def js_split_from.simps escape_syntax_def
  syntax_chars_def backslash_def lineTerminator_def spec_matches_def Let_def

theorem matchPath_refines_spec_witness:
  "cache_sound Map.empty
   \<and> \<not> lineTerminator CHR ''/'' \<and> \<not> lineTerminator CHR ''a''
   \<and> fst (matchPath ''/a.b/*/**'' ''/a.b/c/d/e'' Map.empty)
   \<and> spec_matches ''/a.b/*/**'' ''/a.b/c/d/e''
   \<and> \<not> fst (matchPath ''/a.b/*'' ''/aXb/c'' Map.empty)
   \<and> \<not> spec_matches ''/a.b/*'' ''/aXb/c''"
proof -
  have a: "\<forall>c \<in> set ''/a.b/c/d/e''. \<not> lineTerminator c"
    by (simp add: lineTerminator_def)
  have b: "\<forall>c \<in> set ''/aXb/c''. \<not> lineTerminator c"
    by (simp add: lineTerminator_def)
  have c: "spec_matches ''/a.b/*/**'' ''/a.b/c/d/e''"
    by (simp add: spec_matches_def)
  have d: "\<not> spec_matches ''/a.b/*'' ''/aXb/c''"
    by (simp add: spec_matches_def)
  from matchPath_refines_spec [OF cache_sound_empty a, of "''/a.b/*/**''"]
    matchPath_refines_spec [OF cache_sound_empty b, of "''/a.b/*''"] c d
  show ?thesis by (simp add: cache_sound_empty lineTerminator_def)
qed

text \<open>
  C7. The pattern language of the specification is what the matcher computes on every
  path without a line terminator, as shown above, but not on every path: \<open>**\<close> is
  compiled to \<open>.*\<close>, and \<open>.\<close> does not match a line feed or a carriage return. The
  pattern \<open>/api/**\<close> does not match the path \<open>/api/a\<close>, line feed, \<open>b\<close>, which the
  specification's \<open>**\<close> (any run of characters) matches; \<open>/api/*\<close>, compiled to
  \<open>[^/]*\<close>, does match it.
\<close>

theorem matchPath_misses_line_feed:
  "fst (matchPath ''/api/**'' (''/api/a'' @ [CHR 0x0A] @ ''b'') Map.empty) = False
   \<and> spec_matches ''/api/**'' (''/api/a'' @ [CHR 0x0A] @ ''b'') = True
   \<and> fst (matchPath ''/api/*'' (''/api/a'' @ [CHR 0x0A] @ ''b'') Map.empty) = True"
  by (simp add: matcher_defs)

section \<open>The three backends, side by side\<close>


subsection \<open>Requests served in lockstep\<close>




subsection \<open>Memory and secondary storage\<close>




subsection \<open>Memory and the durable table\<close>
















subsection \<open>Where the backends agree\<close>

text \<open>
  The two requests at 0 and at exactly 10000 ms, on which the memory and the durable
  backend differ, are left out by this condition: at 10000 ms the memory backend has
  dropped the entry, and its window has not elapsed.
\<close>

lemma boundary_request_dropped_live:
  "\<not> never_drops_live ip_plugin (at_instants caller [0, 10000]) (Map.empty, Map.empty)"
  by (simp add: at_instants_def kept_or_elapsed_def opens_window_def resolveRule_def
      example_defs engine_defs memory_defs)



end
